theory Spec2Isabelle
  imports Main "HOL-Library.Word" "HOL-Library.Sublist"
begin

section \<open>Data model of package network (src/network/net.go)\<close>

text \<open>
  The file net.go holds the registry of agents and acceptors (type \<open>netService\<close>), the
  message router (Push, Response, Broadcast, Multicast), session close handling and the
  heartbeat. The packages message, packet, session and log, the types agent and
  acceptor, and the configuration \<open>appConfig\<close> live outside this file; what net.go reads
  of them is modelled below, and every call that leaves net.go is recorded as an event of
  a trace kept in the state.
\<close>

type_synonym uid = "64 word"    \<comment> \<open>Go \<open>uint64\<close>\<close>
type_synonym bytes = "8 word list"    \<comment> \<open>Go \<open>[]byte\<close>\<close>
type_synonym conn = nat    \<comment> \<open>a \<open>net.Conn\<close>, opaque\<close>
type_synonym ref = nat    \<comment> \<open>the address of a \<open>netService\<close> object\<close>
type_synonym callback = nat    \<comment> \<open>a non-nil \<open>func(*session.Session)\<close> value, opaque\<close>

text \<open>
  Modelled from the spec: the Entity capability of a session (package session is not part
  of net.go). The spec gives it \<open>ID() -> uint64\<close> and \<open>Send(bytes)\<close>, and binds the
  session of an agent or acceptor to the id of its owner.
\<close>

datatype entity = AgentEntity uid | AcceptorEntity uid

fun ID :: "entity \<Rightarrow> uid" where
  "ID (AgentEntity i) = i"
| "ID (AcceptorEntity i) = i"

text \<open>
  Modelled from the spec: \<open>session.Session\<close>, with the two fields net.go reads.
  \<open>LastID\<close> is unsigned (the spec: \<open>lastId: uint64\<close>).
\<close>

record session =
  LastID :: uid
  Entity :: entity

text \<open>Modelled from the spec: the status of an agent is \<open>working\<close>, \<open>closed\<close> or another value.\<close>

datatype status = statusWorking | statusClosed | statusOther nat

text \<open>Modelled from the spec: an agent and an acceptor pair a connection, a session and an id.\<close>

record agent =
  agent_id :: uid
  agent_socket :: conn
  agent_session :: session
  agent_status :: status

record acceptor =
  acceptor_id :: uid
  acceptor_socket :: conn
  acceptor_session :: session

text \<open>\<open>message.Message\<close> and \<open>packet.Packet\<close>, with the fields and the kinds net.go sets.\<close>

datatype MessageType = message_Push | message_Response | message_Other nat

record message =
  msg_Type :: MessageType
  msg_ID :: uid
  msg_Route :: string
  msg_Data :: bytes

datatype PacketType = packet_Data | packet_Heartbeat | packet_Other nat

record packet =
  pkt_Type :: PacketType
  pkt_Length :: int
  pkt_Data :: bytes

text \<open>
  Error values. \<open>ErrSessionOnNotify\<close> is the package variable of net.go; \<open>AgentNotExists sid\<close>
  and \<open>AcceptorNotExists sid\<close> stand for the values \<open>errors.New("agent id: " + string(sid) +
  " not exists!")\<close> and its acceptor twin; \<open>Foreign msg\<close> is an error made by another package
  (message, packet), which cannot be \<open>ErrSessionOnNotify\<close>: those packages are imported by
  package network and Go has no import cycles.
\<close>

datatype error =
    ErrSessionOnNotify
  | AgentNotExists uid
  | AcceptorNotExists uid
  | Foreign string

text \<open>The five mutexes of a \<open>netService\<close> and the four calls made on them.\<close>

datatype lockname =
  agentUidLock | agentMapLock | acceptorUidLock | acceptorMapLock | sessionCloseCbLock

datatype lockop = Lock | Unlock | RLock | RUnlock

text \<open>
  Every call that leaves net.go, in program order: mutex calls (with the address of the
  \<open>netService\<close> owning the mutex), \<open>message.Encode\<close>, \<open>Packet.Pack\<close>,
  \<open>session.Entity.Send\<close>, the agent methods \<open>send\<close> and \<open>heartbeat\<close>, a close callback,
  \<open>log.Error\<close> and \<open>log.Info\<close>.
\<close>

datatype event =
    Mutex ref lockname lockop
  | Encode_call message
  | Pack_call packet
  | Entity_Send entity bytes
  | agent_send agent bytes
  | agent_heartbeat agent
  | Callback callback session
  | log_Error string
  | log_Info string
  | log_Info_count string nat

text \<open>
  What net.go takes from outside. \<open>message_Encode\<close> and \<open>packet_Pack\<close> return the encoded
  bytes or the text of their error; their first argument is the trace at the moment of
  the call, so that a result may differ from one call to the next (an encoder that is a
  function of its message alone ignores it). \<open>IsFrontend\<close> is \<open>appConfig.IsFrontend\<close>.
  \<open>agent_String\<close> and \<open>acceptor_String\<close> are the \<open>String\<close> methods, called on a pointer
  that may be nil. \<open>initial_status\<close> is the status \<open>newAgent\<close> gives a new agent.
\<close>

record extern =
  message_Encode :: "event list \<Rightarrow> message \<Rightarrow> string + bytes"
  packet_Pack :: "event list \<Rightarrow> packet \<Rightarrow> string + bytes"
  IsFrontend :: bool
  agent_String :: "agent option \<Rightarrow> string"
  acceptor_String :: "acceptor option \<Rightarrow> string"
  initial_status :: status

subsection \<open>Go maps\<close>

text \<open>
  A Go map value is nil or a table. Reading a nil map finds nothing, \<open>len\<close> of it is 0,
  \<open>delete\<close> on it does nothing, \<open>range\<close> over it runs no iteration, and storing into it
  panics. The values of both registry maps are pointers, which may be nil: a pointer is
  an \<open>option\<close>, \<open>None\<close> for nil.
\<close>

type_synonym 'v gomap = "(uid \<rightharpoonup> 'v) option"

definition make_map :: "'v gomap" where
  "make_map = Some Map.empty"

definition map_get :: "'v gomap \<Rightarrow> uid \<Rightarrow> 'v option" where
  "map_get m k = (case m of None \<Rightarrow> None | Some f \<Rightarrow> f k)"

text \<open>\<open>m[k] = v\<close>; \<open>None\<close> is the panic "assignment to entry in nil map".\<close>

definition map_store :: "'v gomap \<Rightarrow> uid \<Rightarrow> 'v \<Rightarrow> 'v gomap option" where
  "map_store m k v = (case m of None \<Rightarrow> None | Some f \<Rightarrow> Some (Some (f(k \<mapsto> v))))"

definition map_delete :: "'v gomap \<Rightarrow> uid \<Rightarrow> 'v gomap" where
  "map_delete m k = (case m of None \<Rightarrow> None | Some f \<Rightarrow> Some (f(k := None)))"

definition map_keys :: "'v gomap \<Rightarrow> uid set" where
  "map_keys m = (case m of None \<Rightarrow> {} | Some f \<Rightarrow> dom f)"

definition map_len :: "'v gomap \<Rightarrow> nat" where
  "map_len m = card (map_keys m)"

text \<open>
  \<open>range\<close> visits every key once, in an order the runtime chooses. A function with a
  \<open>range\<close> loop takes that order as an argument; \<open>range_order m ks\<close> says that \<open>ks\<close> is
  such an order for \<open>m\<close>, and \<open>range_values m ks\<close> is the values visited.
\<close>

definition range_order :: "'v gomap \<Rightarrow> uid list \<Rightarrow> bool" where
  "range_order m ks \<longleftrightarrow> distinct ks \<and> set ks = map_keys m"

definition range_values :: "'v gomap \<Rightarrow> uid list \<Rightarrow> 'v list" where
  "range_values m ks = List.map_filter (map_get m) ks"

subsection \<open>The registry and the state\<close>

text \<open>
  \<open>netService\<close> with its data fields. The five \<open>sync.RWMutex\<close> fields hold no data of the
  program; the calls on them are events of the trace. \<open>sessionCloseCb\<close> is a slice of
  function values, \<open>None\<close> for a nil one.
\<close>

record netService =
  agentUid :: uid
  agentMap :: "agent option gomap"
  acceptorUid :: uid
  acceptorMap :: "acceptor option gomap"
  sessionCloseCb :: "callback option list"

text \<open>
  The state: the \<open>netService\<close> object at every address, and the trace of calls.
  \<open>defaultNetService\<close> is the address of the package's own instance.
\<close>

record world =
  heap :: "ref \<Rightarrow> netService"
  trace :: "event list"

definition defaultNetService :: ref where
  "defaultNetService = 0"

definition emit :: "event \<Rightarrow> world \<Rightarrow> world" where
  "emit ev w = w\<lparr>trace := trace w @ [ev]\<rparr>"

definition upd :: "ref \<Rightarrow> (netService \<Rightarrow> netService) \<Rightarrow> world \<Rightarrow> world" where
  "upd net f w = w\<lparr>heap := (heap w)(net := f (heap w net))\<rparr>"

section \<open>The functions of net.go\<close>

text \<open>Line 17: the heartbeat frame, packed once when the package is initialised (the
  trace is empty then); the error of \<open>Pack\<close> is dropped, and the frame is nil if it failed.\<close>

definition heartbeatPacket :: "extern \<Rightarrow> bytes" where
  "heartbeatPacket ext =
     (case packet_Pack ext [] \<lparr>pkt_Type = packet_Heartbeat, pkt_Length = 0, pkt_Data = []\<rparr> of
        Inl e \<Rightarrow> []
      | Inr p \<Rightarrow> p)"

definition NewNetService :: netService where
  "NewNetService =
     \<lparr>agentUid = 1, agentMap = make_map, acceptorUid = 1, acceptorMap = make_map,
      sessionCloseCb = []\<rparr>"

text \<open>Modelled from the spec: \<open>newAgent\<close> and \<open>newAcceptor\<close> (agent.go and acceptor.go are
  not part of net.go) build the wrapper with a fresh session bound to the id.\<close>

definition newAgent :: "extern \<Rightarrow> uid \<Rightarrow> conn \<Rightarrow> agent" where
  "newAgent ext i c =
     \<lparr>agent_id = i, agent_socket = c,
      agent_session = \<lparr>LastID = 0, Entity = AgentEntity i\<rparr>,
      agent_status = initial_status ext\<rparr>"

definition newAcceptor :: "uid \<Rightarrow> conn \<Rightarrow> acceptor" where
  "newAcceptor i c =
     \<lparr>acceptor_id = i, acceptor_socket = c,
      acceptor_session = \<lparr>LastID = 0, Entity = AcceptorEntity i\<rparr>\<rparr>"

text \<open>\<open>createAgent\<close>; \<open>None\<close> is the panic of the store into a nil map.\<close>

definition createAgent :: "extern \<Rightarrow> ref \<Rightarrow> conn \<Rightarrow> world \<Rightarrow> (agent \<times> world) option" where
  "createAgent ext net c w =
     (let w1 = emit (Mutex net agentUidLock Lock) w;
          aid = agentUid (heap w1 net);
          w2 = upd net (\<lambda>s. s\<lparr>agentUid := agentUid s + 1\<rparr>) w1;
          w3 = emit (Mutex net agentUidLock Unlock) w2;
          a = newAgent ext aid c;
          w4 = emit (Mutex net agentMapLock Lock) w3
      in case map_store (agentMap (heap w4 net)) aid (Some a) of
           None \<Rightarrow> None
         | Some m \<Rightarrow>
             Some (a, emit (Mutex net agentMapLock Unlock)
                        (upd net (\<lambda>s. s\<lparr>agentMap := m\<rparr>) w4)))"

definition getAgent :: "ref \<Rightarrow> uid \<Rightarrow> world \<Rightarrow> (error + agent) \<times> world" where
  "getAgent net sid w =
     (case map_get (agentMap (heap w net)) sid of
        Some (Some a) \<Rightarrow> (Inr a, w)
      | _ \<Rightarrow> (Inl (AgentNotExists sid), w))"

definition createAcceptor :: "ref \<Rightarrow> conn \<Rightarrow> world \<Rightarrow> (acceptor \<times> world) option" where
  "createAcceptor net c w =
     (let w1 = emit (Mutex net acceptorUidLock Lock) w;
          aid = acceptorUid (heap w1 net);
          w2 = upd net (\<lambda>s. s\<lparr>acceptorUid := acceptorUid s + 1\<rparr>) w1;
          w3 = emit (Mutex net acceptorUidLock Unlock) w2;
          a = newAcceptor aid c;
          w4 = emit (Mutex net acceptorMapLock Lock) w3
      in case map_store (acceptorMap (heap w4 net)) aid (Some a) of
           None \<Rightarrow> None
         | Some m \<Rightarrow>
             Some (a, emit (Mutex net acceptorMapLock Unlock)
                        (upd net (\<lambda>s. s\<lparr>acceptorMap := m\<rparr>) w4)))"

definition getAcceptor :: "ref \<Rightarrow> uid \<Rightarrow> world \<Rightarrow> (error + acceptor) \<times> world" where
  "getAcceptor net sid w =
     (case map_get (acceptorMap (heap w net)) sid of
        Some (Some rs) \<Rightarrow> (Inr rs, w)
      | _ \<Rightarrow> (Inl (AcceptorNotExists sid), w))"

text \<open>\<open>send\<close>: the frame goes to the entity of the session; what \<open>Send\<close> returns is dropped.\<close>

definition send :: "ref \<Rightarrow> session \<Rightarrow> bytes \<Rightarrow> world \<Rightarrow> world" where
  "send net s data w = emit (Entity_Send (Entity s) data) w"

text \<open>\<open>Push\<close> returns \<open>None\<close> for a nil error.\<close>

definition Push :: "extern \<Rightarrow> ref \<Rightarrow> session \<Rightarrow> string \<Rightarrow> bytes \<Rightarrow> world \<Rightarrow> error option \<times> world" where
  "Push ext net s route data w =
     (let msg = \<lparr>msg_Type = message_Push, msg_ID = 0, msg_Route = route, msg_Data = data\<rparr>;
          r = message_Encode ext (trace w) msg;
          w1 = emit (Encode_call msg) w
      in case r of
           Inl e \<Rightarrow> (Some (Foreign e), emit (log_Error e) w1)
         | Inr m \<Rightarrow>
             (let p = \<lparr>pkt_Type = packet_Data, pkt_Length = int (length m), pkt_Data = m\<rparr>;
                  r' = packet_Pack ext (trace w1) p;
                  w2 = emit (Pack_call p) w1
              in case r' of
                   Inl e \<Rightarrow> (Some (Foreign e), emit (log_Error e) w2)
                 | Inr ep \<Rightarrow> (None, send net s ep w2)))"

definition Response :: "extern \<Rightarrow> ref \<Rightarrow> session \<Rightarrow> bytes \<Rightarrow> world \<Rightarrow> error option \<times> world" where
  "Response ext net s data w =
     (if LastID s \<le> 0 then (Some ErrSessionOnNotify, w)
      else
        (let msg = \<lparr>msg_Type = message_Response, msg_ID = LastID s, msg_Route = [],
                    msg_Data = data\<rparr>;
             r = message_Encode ext (trace w) msg;
             w1 = emit (Encode_call msg) w
         in case r of
              Inl e \<Rightarrow> (Some (Foreign e), emit (log_Error e) w1)
            | Inr m \<Rightarrow>
                (let p = \<lparr>pkt_Type = packet_Data, pkt_Length = int (length m), pkt_Data = m\<rparr>;
                     r' = packet_Pack ext (trace w1) p;
                     w2 = emit (Pack_call p) w1
                 in case r' of
                      Inl e \<Rightarrow> (Some (Foreign e), emit (log_Error e) w2)
                    | Inr ep \<Rightarrow> (None, send net s ep w2))))"

text \<open>
  \<open>Broadcast\<close>: the loop over the values of \<open>net.agentMap\<close>. The result of \<open>Push\<close> is
  dropped. Reading \<open>s.session\<close> through a nil pointer panics: \<open>None\<close>.
\<close>

fun Broadcast_loop :: "extern \<Rightarrow> ref \<Rightarrow> string \<Rightarrow> bytes \<Rightarrow> agent option list \<Rightarrow> world \<Rightarrow> world option" where
  "Broadcast_loop ext net route data [] w = Some w"
| "Broadcast_loop ext net route data (None # ss) w = None"
| "Broadcast_loop ext net route data (Some s # ss) w =
     Broadcast_loop ext net route data ss (snd (Push ext net (agent_session s) route data w))"

definition Broadcast :: "extern \<Rightarrow> ref \<Rightarrow> string \<Rightarrow> bytes \<Rightarrow> uid list \<Rightarrow> world \<Rightarrow> world option" where
  "Broadcast ext net route data order w =
     (if IsFrontend ext
      then Broadcast_loop ext net route data (range_values (agentMap (heap w net)) order) w
      else Some w)"

fun Multicast :: "extern \<Rightarrow> ref \<Rightarrow> uid list \<Rightarrow> string \<Rightarrow> bytes \<Rightarrow> world \<Rightarrow> world" where
  "Multicast ext net [] route data w = w"
| "Multicast ext net (aid # aids) route data w =
     (case map_get (agentMap (heap w net)) aid of
        Some (Some agent) \<Rightarrow>
          Multicast ext net aids route data
            (snd (Push ext net (agent_session agent) route data w))
      | _ \<Rightarrow> Multicast ext net aids route data w)"

text \<open>\<open>dumpAgents\<close> and \<open>dumpAcceptor\<close>; the deferred \<open>RUnlock\<close> runs last.\<close>

definition dumpAgents :: "extern \<Rightarrow> ref \<Rightarrow> uid list \<Rightarrow> world \<Rightarrow> world" where
  "dumpAgents ext net order w =
     (let w1 = emit (Mutex net agentMapLock RLock) w;
          w2 = emit (log_Info_count ''current agent count: %d'' (map_len (agentMap (heap w1 net)))) w1;
          w3 = fold (\<lambda>ses. emit (log_Info (''session: '' @ agent_String ext ses)))
                 (range_values (agentMap (heap w2 net)) order) w2
      in emit (Mutex net agentMapLock RUnlock) w3)"

definition dumpAcceptor :: "extern \<Rightarrow> ref \<Rightarrow> uid list \<Rightarrow> world \<Rightarrow> world" where
  "dumpAcceptor ext net order w =
     (let w1 = emit (Mutex net acceptorMapLock RLock) w;
          w2 = emit (log_Info_count ''current acceptor count: %d''
                 (map_len (acceptorMap (heap w1 net)))) w1;
          w3 = fold (\<lambda>ses. emit (log_Info (''session: '' @ acceptor_String ext ses)))
                 (range_values (acceptorMap (heap w2 net)) order) w2
      in emit (Mutex net acceptorMapLock RUnlock) w3)"

text \<open>
  \<open>closeSession\<close>. The loop over \<open>net.sessionCloseCb\<close> calls every entry that is not nil.
  The dump at the end is the one of \<open>defaultNetService\<close>, whatever \<open>net\<close> is; \<open>order\<close> is
  the order of its \<open>range\<close>.
\<close>

fun call_callbacks :: "callback option list \<Rightarrow> session \<Rightarrow> world \<Rightarrow> world" where
  "call_callbacks [] s w = w"
| "call_callbacks (None # cbs) s w = call_callbacks cbs s w"
| "call_callbacks (Some cb # cbs) s w = call_callbacks cbs s (emit (Callback cb s) w)"

definition closeSession :: "extern \<Rightarrow> ref \<Rightarrow> session \<Rightarrow> uid list \<Rightarrow> world \<Rightarrow> world" where
  "closeSession ext net s order w =
     (let w1 = emit (Mutex net sessionCloseCbLock RLock) w;
          w2 = (if length (sessionCloseCb (heap w1 net)) > 0
                then call_callbacks (sessionCloseCb (heap w1 net)) s w1 else w1);
          w3 = emit (Mutex net sessionCloseCbLock RUnlock) w2
      in if IsFrontend ext then
           (let w4 = emit (Mutex net agentMapLock Lock) w3;
                w5 = (case map_get (agentMap (heap w4 net)) (ID (Entity s)) of
                        Some (Some agent) \<Rightarrow>
                          upd net (\<lambda>n. n\<lparr>agentMap := map_delete (agentMap n) (ID (Entity s))\<rparr>) w4
                      | _ \<Rightarrow> w4);
                w6 = emit (Mutex net agentMapLock Unlock) w5
            in dumpAgents ext defaultNetService order w6)
         else w3)"

definition removeAcceptor :: "ref \<Rightarrow> acceptor \<Rightarrow> world \<Rightarrow> world" where
  "removeAcceptor net a w =
     (let w1 = emit (Mutex net acceptorMapLock Lock) w;
          w2 = upd net (\<lambda>n. n\<lparr>acceptorMap := map_delete (acceptorMap n) (acceptor_id a)\<rparr>) w1
      in emit (Mutex net acceptorMapLock Unlock) w2)"

text \<open>
  \<open>heartbeat\<close>: the loop variable of the source, named \<open>session\<close>, is the agent pointer
  stored in \<open>agentMap\<close>; reading \<open>session.status\<close> through a nil pointer panics: \<open>None\<close>.
\<close>

fun heartbeat_loop :: "extern \<Rightarrow> agent option list \<Rightarrow> world \<Rightarrow> world option" where
  "heartbeat_loop ext [] w = Some w"
| "heartbeat_loop ext (None # ss) w = None"
| "heartbeat_loop ext (Some session # ss) w =
     (if agent_status session = statusWorking
      then heartbeat_loop ext ss
             (emit (agent_heartbeat session) (emit (agent_send session (heartbeatPacket ext)) w))
      else heartbeat_loop ext ss w)"

definition heartbeat :: "extern \<Rightarrow> ref \<Rightarrow> uid list \<Rightarrow> world \<Rightarrow> world option" where
  "heartbeat ext net order w =
     (if \<not> IsFrontend ext \<or> agentMap (heap w net) = None then Some w
      else heartbeat_loop ext (range_values (agentMap (heap w net)) order) w)"

text \<open>\<open>sessionClosedCallback\<close> appends under the write lock; \<open>OnSessionClosed\<close> is the same
  on \<open>defaultNetService\<close>.\<close>

definition sessionClosedCallback :: "ref \<Rightarrow> callback option \<Rightarrow> world \<Rightarrow> world" where
  "sessionClosedCallback net cb w =
     (let w1 = emit (Mutex net sessionCloseCbLock Lock) w;
          w2 = upd net (\<lambda>n. n\<lparr>sessionCloseCb := sessionCloseCb n @ [cb]\<rparr>) w1
      in emit (Mutex net sessionCloseCbLock Unlock) w2)"

definition OnSessionClosed :: "callback option \<Rightarrow> world \<Rightarrow> world" where
  "OnSessionClosed cb w = sessionClosedCallback defaultNetService cb w"

section \<open>Reading the trace\<close>

text \<open>The calls of one kind in a list of events, with their arguments, in order; and the
  events a call added to the trace.\<close>

fun encode_of :: "event \<Rightarrow> message list" where
  "encode_of (Encode_call m) = [m]"
| "encode_of _ = []"

fun pack_of :: "event \<Rightarrow> packet list" where
  "pack_of (Pack_call p) = [p]"
| "pack_of _ = []"

fun send_of :: "event \<Rightarrow> (entity \<times> bytes) list" where
  "send_of (Entity_Send e b) = [(e, b)]"
| "send_of _ = []"

fun lock_of :: "event \<Rightarrow> (ref \<times> lockname \<times> lockop) list" where
  "lock_of (Mutex n l c) = [(n, l, c)]"
| "lock_of _ = []"

fun callback_of :: "event \<Rightarrow> (callback \<times> session) list" where
  "callback_of (Callback cb s) = [(cb, s)]"
| "callback_of _ = []"

definition encode_calls :: "event list \<Rightarrow> message list" where
  "encode_calls evs = concat (map encode_of evs)"

definition pack_calls :: "event list \<Rightarrow> packet list" where
  "pack_calls evs = concat (map pack_of evs)"

definition sends :: "event list \<Rightarrow> (entity \<times> bytes) list" where
  "sends evs = concat (map send_of evs)"

definition lock_calls :: "event list \<Rightarrow> (ref \<times> lockname \<times> lockop) list" where
  "lock_calls evs = concat (map lock_of evs)"

definition callback_calls :: "event list \<Rightarrow> (callback \<times> session) list" where
  "callback_calls evs = concat (map callback_of evs)"

definition new_events :: "world \<Rightarrow> world \<Rightarrow> event list" where
  "new_events w w' = drop (length (trace w)) (trace w')"

text \<open>The calls of the logger in a trace.\<close>

fun log_of :: "event \<Rightarrow> event list" where
  "log_of (log_Error e) = [log_Error e]"
| "log_of (log_Info s) = [log_Info s]"
| "log_of (log_Info_count s n) = [log_Info_count s n]"
| "log_of _ = []"

definition log_calls :: "event list \<Rightarrow> event list" where
  "log_calls evs = concat (map log_of evs)"

text \<open>The calls of \<open>dumpAgents\<close> on the \<open>netService\<close> at \<open>net\<close> whose agent map is \<open>m\<close>.\<close>

definition dump_events :: "extern \<Rightarrow> ref \<Rightarrow> uid list \<Rightarrow> agent option gomap \<Rightarrow> event list" where
  "dump_events ext net order m =
     [Mutex net agentMapLock RLock, log_Info_count ''current agent count: %d'' (map_len m)] @
     map (\<lambda>ses. log_Info (''session: '' @ agent_String ext ses)) (range_values m order) @
     [Mutex net agentMapLock RUnlock]"

text \<open>The calls \<open>heartbeat\<close> makes for one agent: the send of the heartbeat frame and then
  the agent's own \<open>heartbeat\<close> method when its status is working, nothing otherwise.\<close>

definition heartbeat_events :: "extern \<Rightarrow> agent \<Rightarrow> event list" where
  "heartbeat_events ext a =
     (if agent_status a = statusWorking
      then [agent_send a (heartbeatPacket ext), agent_heartbeat a] else [])"

section \<open>Notions used in the statements\<close>

text \<open>No key of the map holds a nil pointer.\<close>

definition nil_free :: "'v option gomap \<Rightarrow> bool" where
  "nil_free m \<longleftrightarrow> (\<forall>k. map_get m k \<noteq> Some None)"

text \<open>The collaborators \<open>message.Encode\<close> and \<open>Packet.Pack\<close> return no error, whatever was
  called before.\<close>

definition never_fails :: "extern \<Rightarrow> bool" where
  "never_fails ext \<longleftrightarrow>
     (\<forall>h m. \<exists>b. message_Encode ext h m = Inr b) \<and> (\<forall>h p. \<exists>b. packet_Pack ext h p = Inr b)"

text \<open>The test \<open>a, ok := m[k]; ok && a != nil\<close>: the agent stored under a key, when the key
  is present and its pointer is not nil.\<close>

definition lookup_agent :: "agent option gomap \<Rightarrow> uid \<Rightarrow> agent option" where
  "lookup_agent m k = (case map_get m k of Some (Some a) \<Rightarrow> Some a | _ \<Rightarrow> None)"

text \<open>The calls of \<open>Push\<close> on the sessions of a list of agents, one after the other, each
  result dropped.\<close>

definition Push_each :: "extern \<Rightarrow> ref \<Rightarrow> string \<Rightarrow> bytes \<Rightarrow> agent list \<Rightarrow> world \<Rightarrow> world" where
  "Push_each ext net route data ags w =
     fold (\<lambda>a w'. snd (Push ext net (agent_session a) route data w')) ags w"

text \<open>A run of \<open>createAgent\<close> calls on one \<open>netService\<close>, one per connection, in sequence;
  the agents returned, in call order.\<close>

fun createAgents :: "extern \<Rightarrow> ref \<Rightarrow> conn list \<Rightarrow> world \<Rightarrow> (agent list \<times> world) option" where
  "createAgents ext net [] w = Some ([], w)"
| "createAgents ext net (c # cs) w =
     (case createAgent ext net c w of
        None \<Rightarrow> None
      | Some (a, w') \<Rightarrow>
          (case createAgents ext net cs w' of
             None \<Rightarrow> None
           | Some (as, w'') \<Rightarrow> Some (a # as, w'')))"

text \<open>
  One call of a function of net.go, with its arguments (the receiver first, and the order
  of the \<open>range\<close> where the function has one), and its effect on the state; the value the
  function returns is dropped, \<open>None\<close> is a panic.
\<close>

datatype call =
    call_createAgent ref conn
  | call_getAgent ref uid
  | call_createAcceptor ref conn
  | call_getAcceptor ref uid
  | call_send ref session bytes
  | call_Push ref session string bytes
  | call_Response ref session bytes
  | call_Broadcast ref string bytes "uid list"
  | call_Multicast ref "uid list" string bytes
  | call_closeSession ref session "uid list"
  | call_removeAcceptor ref acceptor
  | call_heartbeat ref "uid list"
  | call_dumpAgents ref "uid list"
  | call_dumpAcceptor ref "uid list"
  | call_sessionClosedCallback ref "callback option"
  | call_OnSessionClosed "callback option"

fun exec :: "extern \<Rightarrow> call \<Rightarrow> world \<Rightarrow> world option" where
  "exec ext (call_createAgent net c) w = map_option snd (createAgent ext net c w)"
| "exec ext (call_getAgent net sid) w = Some (snd (getAgent net sid w))"
| "exec ext (call_createAcceptor net c) w = map_option snd (createAcceptor net c w)"
| "exec ext (call_getAcceptor net sid) w = Some (snd (getAcceptor net sid w))"
| "exec ext (call_send net s data) w = Some (send net s data w)"
| "exec ext (call_Push net s route data) w = Some (snd (Push ext net s route data w))"
| "exec ext (call_Response net s data) w = Some (snd (Response ext net s data w))"
| "exec ext (call_Broadcast net route data order) w = Broadcast ext net route data order w"
| "exec ext (call_Multicast net aids route data) w = Some (Multicast ext net aids route data w)"
| "exec ext (call_closeSession net s order) w = Some (closeSession ext net s order w)"
| "exec ext (call_removeAcceptor net a) w = Some (removeAcceptor net a w)"
| "exec ext (call_heartbeat net order) w = heartbeat ext net order w"
| "exec ext (call_dumpAgents net order) w = Some (dumpAgents ext net order w)"
| "exec ext (call_dumpAcceptor net order) w = Some (dumpAcceptor ext net order w)"
| "exec ext (call_sessionClosedCallback net cb) w = Some (sessionClosedCallback net cb w)"
| "exec ext (call_OnSessionClosed cb) w = Some (OnSessionClosed cb w)"

section \<open>Example inputs\<close>

text \<open>Collaborators that never fail (the packer prefixes a zero byte), and the state in
  which every \<open>netService\<close> is as \<open>NewNetService\<close> returns it and nothing has been called.\<close>

definition example_extern :: "bool \<Rightarrow> extern" where
  "example_extern fe =
     \<lparr>message_Encode = (\<lambda>h m. Inr (msg_Data m)),
      packet_Pack = (\<lambda>h p. Inr (0 # pkt_Data p)),
      IsFrontend = fe,
      agent_String = (\<lambda>a. []),
      acceptor_String = (\<lambda>a. []),
      initial_status = statusWorking\<rparr>"

definition start_world :: world where
  "start_world = \<lparr>heap = (\<lambda>n. NewNetService), trace = []\<rparr>"

text \<open>Collaborators whose encoder fails on the first call of all (the trace is empty) and
  never after.\<close>

definition failing_first :: extern where
  "failing_first =
     (example_extern True)
       \<lparr>message_Encode := (\<lambda>h m. if h = [] then Inl ''encode failed'' else Inr (msg_Data m))\<rparr>"

text \<open>A state in which every \<open>netService\<close> holds the agents 1 and 2, as two calls of
  \<open>createAgent\<close> leave them.\<close>

definition two_agents :: world where
  "two_agents =
     \<lparr>heap = (\<lambda>n. NewNetService
         \<lparr>agentUid := 3,
          agentMap := Some [1 \<mapsto> Some (newAgent (example_extern True) 1 0),
                            2 \<mapsto> Some (newAgent (example_extern True) 2 0)]\<rparr>),
      trace = []\<rparr>"

text \<open>A state with two registries: the \<open>netService\<close> at address 2 holds the agents 1 and 2,
  every other one, \<open>defaultNetService\<close> among them, is as \<open>NewNetService\<close> returns it.\<close>

definition second_registry :: world where
  "second_registry = start_world\<lparr>heap := (heap start_world)(2 := heap two_agents 2)\<rparr>"

text \<open>A state in which every \<open>netService\<close> holds agent 1, working, and agent 2, closed.\<close>

definition one_closed :: world where
  "one_closed =
     \<lparr>heap = (\<lambda>n. NewNetService
         \<lparr>agentUid := 3,
          agentMap := Some [1 \<mapsto> Some (newAgent (example_extern True) 1 0),
                            2 \<mapsto> Some ((newAgent (example_extern True) 2 0)
                                           \<lparr>agent_status := statusClosed\<rparr>)]\<rparr>),
      trace = []\<rparr>"

text \<open>A state in which every \<open>netService\<close> holds the acceptor 1, as one call of
  \<open>createAcceptor\<close> leaves it.\<close>

definition one_acceptor :: world where
  "one_acceptor =
     \<lparr>heap = (\<lambda>n. NewNetService
         \<lparr>acceptorUid := 2, acceptorMap := Some [1 \<mapsto> Some (newAcceptor 1 0)]\<rparr>),
      trace = []\<rparr>"

section \<open>Properties\<close>

subsection \<open>State and trace of the basic steps\<close>

lemma trace_emit [simp]: "trace (emit ev w) = trace w @ [ev]"
  by (simp add: emit_def)

lemma heap_emit [simp]: "heap (emit ev w) = heap w"
  by (simp add: emit_def)

lemma trace_upd [simp]: "trace (upd net f w) = trace w"
  by (simp add: upd_def)

lemma heap_upd [simp]: "heap (upd net f w) = (heap w)(net := f (heap w net))"
  by (simp add: upd_def)

lemma heap_send [simp]: "heap (send net s b w) = heap w"
  by (simp add: send_def)

lemma trace_send [simp]: "trace (send net s b w) = trace w @ [Entity_Send (Entity s) b]"
  by (simp add: send_def)

lemma heap_Push [simp]: "heap (snd (Push ext net s route data w)) = heap w"
  by (simp add: Push_def Let_def split: sum.splits)

lemma heap_Response [simp]: "heap (snd (Response ext net s data w)) = heap w"
  by (simp add: Response_def Let_def split: sum.splits)

text \<open>
  C10: \<open>Push\<close> and \<open>Response\<close>, whether they return an error or nil, leave every
  \<open>netService\<close> object as it was: both id counters, the agent and acceptor maps with the
  agents, acceptors, sessions (\<open>LastID\<close>) and statuses stored in them, and the callback
  list. The session argument is only read. All they do is append calls to the trace.
\<close>

theorem Push_Response_frame:
  "heap (snd (Push ext net s route data w)) = heap w \<and>
   heap (snd (Response ext net s data w)) = heap w \<and>
   prefix (trace w) (trace (snd (Push ext net s route data w))) \<and>
   prefix (trace w) (trace (snd (Response ext net s data w)))"
  by (simp add: Push_def Response_def Let_def split: sum.splits)

subsection \<open>Response\<close>

text \<open>
  C1: \<open>Response\<close> returns \<open>ErrSessionOnNotify\<close> exactly when \<open>session.LastID <= 0\<close>, and
  then the state is untouched: nothing is encoded, packed or sent. When \<open>LastID > 0\<close> it
  calls \<open>message.Encode\<close> once, on a message of kind Response whose ID is \<open>LastID\<close>; if
  that fails it returns the encoder's error, packs nothing and sends nothing; otherwise it
  packs one data packet holding the encoded bytes; if packing fails it returns that error
  and sends nothing; otherwise it returns nil and sends the frame, once, to the entity of
  the session.
\<close>

theorem Response_spec:
  "(fst (Response ext net s data w) = Some ErrSessionOnNotify \<longleftrightarrow> LastID s \<le> 0) \<and>
   (LastID s \<le> 0 \<longrightarrow> snd (Response ext net s data w) = w) \<and>
   (0 < LastID s \<longrightarrow>
      (let msg = \<lparr>msg_Type = message_Response, msg_ID = LastID s, msg_Route = [],
                  msg_Data = data\<rparr>
       in \<exists>evs. trace (snd (Response ext net s data w)) = trace w @ evs \<and>
            encode_calls evs = [msg] \<and>
            (case message_Encode ext (trace w) msg of
               Inl e \<Rightarrow>
                 fst (Response ext net s data w) = Some (Foreign e) \<and>
                 pack_calls evs = [] \<and> sends evs = []
             | Inr m \<Rightarrow>
                 (let p = \<lparr>pkt_Type = packet_Data, pkt_Length = int (length m), pkt_Data = m\<rparr>
                  in pack_calls evs = [p] \<and>
                     (case packet_Pack ext (trace w @ [Encode_call msg]) p of
                        Inl e \<Rightarrow>
                          fst (Response ext net s data w) = Some (Foreign e) \<and> sends evs = []
                      | Inr ep \<Rightarrow>
                          fst (Response ext net s data w) = None \<and>
                          sends evs = [(Entity s, ep)])))))"
proof (intro conjI impI)
  show "fst (Response ext net s data w) = Some ErrSessionOnNotify \<longleftrightarrow> LastID s \<le> 0"
    by (simp add: Response_def Let_def split: sum.splits)
next
  assume "LastID s \<le> 0"
  then show "snd (Response ext net s data w) = w"
    by (simp add: Response_def)
next
  assume pos: "0 < LastID s"
  then have nz: "\<not> LastID s \<le> 0"
    by (simp add: not_le)
  show "let msg = \<lparr>msg_Type = message_Response, msg_ID = LastID s, msg_Route = [],
                  msg_Data = data\<rparr>
       in \<exists>evs. trace (snd (Response ext net s data w)) = trace w @ evs \<and>
            encode_calls evs = [msg] \<and>
            (case message_Encode ext (trace w) msg of
               Inl e \<Rightarrow>
                 fst (Response ext net s data w) = Some (Foreign e) \<and>
                 pack_calls evs = [] \<and> sends evs = []
             | Inr m \<Rightarrow>
                 (let p = \<lparr>pkt_Type = packet_Data, pkt_Length = int (length m), pkt_Data = m\<rparr>
                  in pack_calls evs = [p] \<and>
                     (case packet_Pack ext (trace w @ [Encode_call msg]) p of
                        Inl e \<Rightarrow>
                          fst (Response ext net s data w) = Some (Foreign e) \<and> sends evs = []
                      | Inr ep \<Rightarrow>
                          fst (Response ext net s data w) = None \<and>
                          sends evs = [(Entity s, ep)])))"
    using nz
    by (simp add: Response_def Let_def encode_calls_def pack_calls_def sends_def
        split: sum.splits)
qed

theorem Response_spec_witness:
  "LastID \<lparr>LastID = 0, Entity = AgentEntity 1\<rparr> \<le> 0 \<and>
   Response (example_extern True) 0 \<lparr>LastID = 0, Entity = AgentEntity 1\<rparr> [5] start_world
     = (Some ErrSessionOnNotify, start_world) \<and>
   0 < LastID \<lparr>LastID = 7, Entity = AgentEntity 1\<rparr> \<and>
   fst (Response (example_extern True) 0 \<lparr>LastID = 7, Entity = AgentEntity 1\<rparr> [5] start_world)
     = None \<and>
   trace (snd (Response (example_extern True) 0 \<lparr>LastID = 7, Entity = AgentEntity 1\<rparr> [5]
      start_world))
     = [Encode_call \<lparr>msg_Type = message_Response, msg_ID = 7, msg_Route = [], msg_Data = [5]\<rparr>,
        Pack_call \<lparr>pkt_Type = packet_Data, pkt_Length = 1, pkt_Data = [5]\<rparr>,
        Entity_Send (AgentEntity 1) [0, 5]]"
  using Response_spec [of "example_extern True" 0 "\<lparr>LastID = 0, Entity = AgentEntity 1\<rparr>" "[5]"
      start_world]
    Response_spec [of "example_extern True" 0 "\<lparr>LastID = 7, Entity = AgentEntity 1\<rparr>" "[5]"
      start_world]
  by (simp add: Response_def example_extern_def start_world_def Let_def emit_def send_def)

subsection \<open>Ranging over a map\<close>

lemma range_values_agents:
  assumes ro: "range_order m order" and nf: "nil_free m"
  shows "\<exists>ags. range_values m order = map Some ags \<and>
           map (map_get m) order = map (Some \<circ> Some) ags \<and> length ags = map_len m"
proof -
  define ags where "ags = map (\<lambda>k. the (the (map_get m k))) order"
  have key: "map_get m k = Some (Some (the (the (map_get m k))))" if "k \<in> set order" for k
  proof -
    from that ro have "k \<in> map_keys m"
      by (simp add: range_order_def)
    then obtain v where v: "map_get m k = Some v"
      by (auto simp: map_keys_def map_get_def split: option.splits)
    with nf have "v \<noteq> None"
      unfolding nil_free_def by metis
    with v show ?thesis by auto
  qed
  have a: "map (map_get m) order = map (Some \<circ> Some) ags"
    using key by (simp add: ags_def)
  have "range_values m order = List.map_filter id (map (map_get m) order)"
    by (simp add: range_values_def map_filter_def filter_map comp_def)
  also have "\<dots> = map Some ags"
    unfolding a by (simp add: map_filter_def comp_def)
  finally have b: "range_values m order = map Some ags" .
  have d: "distinct order" and so: "set order = map_keys m"
    using ro by (simp_all add: range_order_def)
  have "card (set order) = length order"
    using d by (rule distinct_card)
  then have c: "length ags = map_len m"
    unfolding so by (simp add: ags_def map_len_def)
  from a b c show ?thesis by blast
qed

subsection \<open>Push and its trace\<close>

lemma Push_trace:
  "\<exists>evs. trace (snd (Push ext net s route data w)) = trace w @ evs \<and>
     encode_calls evs =
       [\<lparr>msg_Type = message_Push, msg_ID = 0, msg_Route = route, msg_Data = data\<rparr>] \<and>
     (sends evs = [] \<or> (\<exists>ep. sends evs = [(Entity s, ep)])) \<and>
     (never_fails ext \<longrightarrow> (\<exists>ep. sends evs = [(Entity s, ep)]))"
proof -
  let ?msg = "\<lparr>msg_Type = message_Push, msg_ID = 0, msg_Route = route, msg_Data = data\<rparr>"
  show ?thesis
  proof (cases "message_Encode ext (trace w) ?msg")
    case (Inl e)
    then have "\<not> never_fails ext"
      by (auto simp: never_fails_def) (metis Inl_Inr_False)
    with Inl show ?thesis
      by (simp add: Push_def Let_def encode_calls_def sends_def)
  next
    case (Inr m)
    let ?p = "\<lparr>pkt_Type = packet_Data, pkt_Length = int (length m), pkt_Data = m\<rparr>"
    show ?thesis
    proof (cases "packet_Pack ext (trace w @ [Encode_call ?msg]) ?p")
      case (Inl e)
      then have "\<not> never_fails ext"
        by (auto simp: never_fails_def) (metis Inl_Inr_False)
      with Inl Inr show ?thesis
        by (simp add: Push_def Let_def encode_calls_def sends_def)
    next
      case Inr2: (Inr ep)
      with Inr show ?thesis
        by (simp add: Push_def Let_def encode_calls_def sends_def)
    qed
  qed
qed

lemma encode_calls_append [simp]: "encode_calls (xs @ ys) = encode_calls xs @ encode_calls ys"
  by (simp add: encode_calls_def)

lemma sends_append [simp]: "sends (xs @ ys) = sends xs @ sends ys"
  by (simp add: sends_def)

lemma heap_Push_each [simp]: "heap (Push_each ext net route data ags w) = heap w"
  by (induction ags arbitrary: w) (simp_all add: Push_each_def)

lemma Push_each_Cons:
  "Push_each ext net route data (a # ags) w =
     Push_each ext net route data ags (snd (Push ext net (agent_session a) route data w))"
  by (simp add: Push_each_def)

lemma Push_each_trace:
  "\<exists>evs. trace (Push_each ext net route data ags w) = trace w @ evs \<and>
     encode_calls evs =
       replicate (length ags)
         \<lparr>msg_Type = message_Push, msg_ID = 0, msg_Route = route, msg_Data = data\<rparr> \<and>
     subseq (map fst (sends evs)) (map (\<lambda>a. Entity (agent_session a)) ags) \<and>
     (never_fails ext \<longrightarrow> map fst (sends evs) = map (\<lambda>a. Entity (agent_session a)) ags)"
proof (induction ags arbitrary: w)
  case Nil
  show ?case
    by (simp add: Push_each_def encode_calls_def sends_def)
next
  case (Cons a ags)
  let ?w1 = "snd (Push ext net (agent_session a) route data w)"
  let ?msg = "\<lparr>msg_Type = message_Push, msg_ID = 0, msg_Route = route, msg_Data = data\<rparr>"
  obtain e1 where e1: "trace ?w1 = trace w @ e1" "encode_calls e1 = [?msg]"
    "sends e1 = [] \<or> (\<exists>ep. sends e1 = [(Entity (agent_session a), ep)])"
    "never_fails ext \<longrightarrow> (\<exists>ep. sends e1 = [(Entity (agent_session a), ep)])"
    using Push_trace [of ext net "agent_session a" route data w] by blast
  obtain e2 where e2: "trace (Push_each ext net route data ags ?w1) = trace ?w1 @ e2"
    "encode_calls e2 = replicate (length ags) ?msg"
    "subseq (map fst (sends e2)) (map (\<lambda>a. Entity (agent_session a)) ags)"
    "never_fails ext \<longrightarrow> map fst (sends e2) = map (\<lambda>a. Entity (agent_session a)) ags"
    using Cons.IH [of ?w1] by blast
  have t: "trace (Push_each ext net route data (a # ags) w) = trace w @ (e1 @ e2)"
    using e1(1) e2(1) by (simp add: Push_each_Cons)
  have c: "encode_calls (e1 @ e2) = replicate (length (a # ags)) ?msg"
    using e1(2) e2(2) by simp
  have s: "subseq (map fst (sends (e1 @ e2))) (map (\<lambda>a. Entity (agent_session a)) (a # ags))"
    using e1(3) e2(3) by auto
  have n: "never_fails ext \<longrightarrow>
      map fst (sends (e1 @ e2)) = map (\<lambda>a. Entity (agent_session a)) (a # ags)"
    using e1(4) e2(4) by auto
  from t c s n show ?case by blast
qed

lemma Broadcast_loop_Some:
  "Broadcast_loop ext net route data (map Some ags) w = Some (Push_each ext net route data ags w)"
  by (induction ags arbitrary: w) (simp_all add: Push_each_def)

subsection \<open>Broadcast\<close>

text \<open>
  C2: when the role is not frontend, \<open>Broadcast\<close> returns the state as it was: no call
  at all, so no send. When the role is frontend (and no key of the agent map holds a nil
  pointer), \<open>Broadcast\<close> is one call of \<open>Push\<close> per key of the agent map, on the session of
  the agent stored there, in the order of the \<open>range\<close>; the result of each \<open>Push\<close> is
  dropped and the next one runs: there are as many \<open>message.Encode\<close> calls as registered
  agents whatever failed before, the sends go to sessions of registered agents, at most
  one per \<open>Push\<close>, and exactly one per agent when the collaborators never fail. The
  registry is unchanged. \<open>Broadcast\<close> returns nothing but the state.
\<close>

theorem Broadcast_spec:
  "(\<not> IsFrontend ext \<longrightarrow> Broadcast ext net route data order w = Some w) \<and>
   (IsFrontend ext \<and> range_order (agentMap (heap w net)) order \<and>
    nil_free (agentMap (heap w net)) \<longrightarrow>
      (\<exists>ags evs.
         map (map_get (agentMap (heap w net))) order = map (Some \<circ> Some) ags \<and>
         length ags = map_len (agentMap (heap w net)) \<and>
         Broadcast ext net route data order w = Some (Push_each ext net route data ags w) \<and>
         heap (Push_each ext net route data ags w) = heap w \<and>
         trace (Push_each ext net route data ags w) = trace w @ evs \<and>
         encode_calls evs =
           replicate (map_len (agentMap (heap w net)))
             \<lparr>msg_Type = message_Push, msg_ID = 0, msg_Route = route, msg_Data = data\<rparr> \<and>
         subseq (map fst (sends evs)) (map (\<lambda>a. Entity (agent_session a)) ags) \<and>
         (never_fails ext \<longrightarrow>
            map fst (sends evs) = map (\<lambda>a. Entity (agent_session a)) ags)))"
proof (intro conjI impI)
  assume "\<not> IsFrontend ext"
  then show "Broadcast ext net route data order w = Some w"
    by (simp add: Broadcast_def)
next
  assume a: "IsFrontend ext \<and> range_order (agentMap (heap w net)) order \<and>
    nil_free (agentMap (heap w net))"
  let ?m = "agentMap (heap w net)"
  obtain ags where ags: "range_values ?m order = map Some ags"
    "map (map_get ?m) order = map (Some \<circ> Some) ags" "length ags = map_len ?m"
    using range_values_agents [of ?m order] a by blast
  have b: "Broadcast ext net route data order w = Some (Push_each ext net route data ags w)"
    using a ags(1) by (simp add: Broadcast_def Broadcast_loop_Some)
  obtain evs where evs: "trace (Push_each ext net route data ags w) = trace w @ evs"
    "encode_calls evs = replicate (length ags)
       \<lparr>msg_Type = message_Push, msg_ID = 0, msg_Route = route, msg_Data = data\<rparr>"
    "subseq (map fst (sends evs)) (map (\<lambda>a. Entity (agent_session a)) ags)"
    "never_fails ext \<longrightarrow> map fst (sends evs) = map (\<lambda>a. Entity (agent_session a)) ags"
    using Push_each_trace [of ext net route data ags w] by blast
  have h: "heap (Push_each ext net route data ags w) = heap w"
    by simp
  show "\<exists>ags evs.
         map (map_get (agentMap (heap w net))) order = map (Some \<circ> Some) ags \<and>
         length ags = map_len (agentMap (heap w net)) \<and>
         Broadcast ext net route data order w = Some (Push_each ext net route data ags w) \<and>
         heap (Push_each ext net route data ags w) = heap w \<and>
         trace (Push_each ext net route data ags w) = trace w @ evs \<and>
         encode_calls evs =
           replicate (map_len (agentMap (heap w net)))
             \<lparr>msg_Type = message_Push, msg_ID = 0, msg_Route = route, msg_Data = data\<rparr> \<and>
         subseq (map fst (sends evs)) (map (\<lambda>a. Entity (agent_session a)) ags) \<and>
         (never_fails ext \<longrightarrow>
            map fst (sends evs) = map (\<lambda>a. Entity (agent_session a)) ags)"
    using ags(2,3) b h evs by (intro exI [of _ ags] exI [of _ evs]) simp
qed

lemma two_agents_map:
  "agentMap (heap two_agents n) =
     Some [1 \<mapsto> Some (newAgent (example_extern True) 1 0),
           2 \<mapsto> Some (newAgent (example_extern True) 2 0)]"
  by (simp add: two_agents_def)

lemma two_agents_order: "range_order (agentMap (heap two_agents n)) [2, 1]"
  by (auto simp: two_agents_map range_order_def map_keys_def)

lemma two_agents_nil_free: "nil_free (agentMap (heap two_agents n))"
  by (simp add: two_agents_map nil_free_def map_get_def)

lemma example_never_fails: "never_fails (example_extern fe)"
  by (simp add: never_fails_def example_extern_def)

lemma two_agents_values:
  "range_values (agentMap (heap two_agents n)) [2, 1] =
     [Some (newAgent (example_extern True) 2 0), Some (newAgent (example_extern True) 1 0)]"
  by (simp add: two_agents_map range_values_def map_filter_def map_get_def)

theorem Broadcast_spec_witness:
  "\<not> IsFrontend (example_extern False) \<and>
   Broadcast (example_extern False) 0 ''chat'' [5] [2, 1] two_agents = Some two_agents \<and>
   IsFrontend (example_extern True) \<and> range_order (agentMap (heap two_agents 0)) [2, 1] \<and>
   nil_free (agentMap (heap two_agents 0)) \<and> never_fails (example_extern True) \<and>
   (\<exists>w'. Broadcast (example_extern True) 0 ''chat'' [5] [2, 1] two_agents = Some w' \<and>
      sends (trace w') = [(AgentEntity 2, [0, 5]), (AgentEntity 1, [0, 5])]) \<and>
   IsFrontend failing_first \<and>
   (\<exists>w'. Broadcast failing_first 0 ''chat'' [5] [2, 1] two_agents = Some w' \<and>
      length (encode_calls (trace w')) = 2 \<and> sends (trace w') = [(AgentEntity 1, [0, 5])])"
proof -
  have f: "\<not> IsFrontend (example_extern False)" "IsFrontend (example_extern True)"
    "IsFrontend failing_first"
    by (simp_all add: example_extern_def failing_first_def)
  have t: "trace two_agents = []"
    by (simp add: two_agents_def)
  have s1: "sends (trace (Push_each (example_extern True) 0 ''chat'' [5]
      [newAgent (example_extern True) 2 0, newAgent (example_extern True) 1 0] two_agents))
    = [(AgentEntity 2, [0, 5]), (AgentEntity 1, [0, 5])]"
    by (simp add: Push_each_def Push_def Let_def t example_extern_def newAgent_def sends_def)
  have s2: "sends (trace (Push_each failing_first 0 ''chat'' [5]
      [newAgent (example_extern True) 2 0, newAgent (example_extern True) 1 0] two_agents))
    = [(AgentEntity 1, [0, 5])]"
    by (simp add: Push_each_def Push_def Let_def t example_extern_def failing_first_def
        newAgent_def sends_def)
  have s3: "length (encode_calls (trace (Push_each failing_first 0 ''chat'' [5]
      [newAgent (example_extern True) 2 0, newAgent (example_extern True) 1 0] two_agents))) = 2"
    by (simp add: Push_each_def Push_def Let_def t example_extern_def failing_first_def
        newAgent_def encode_calls_def)
  have b: "Broadcast ext 0 ''chat'' [5] [2, 1] two_agents =
     (if IsFrontend ext then Some (Push_each ext 0 ''chat'' [5]
        [newAgent (example_extern True) 2 0, newAgent (example_extern True) 1 0] two_agents)
      else Some two_agents)" for ext
    by (simp add: Broadcast_def two_agents_values Push_each_def)
  show ?thesis
    using Broadcast_spec [of "example_extern False" 0 "''chat''" "[5]" "[2, 1]" two_agents]
      Broadcast_spec [of "example_extern True" 0 "''chat''" "[5]" "[2, 1]" two_agents]
      Broadcast_spec [of failing_first 0 "''chat''" "[5]" "[2, 1]" two_agents]
      f two_agents_order [of 0] two_agents_nil_free [of 0] example_never_fails [of True]
    by (simp add: b s1 s2 s3)
qed

subsection \<open>Multicast\<close>

lemma Multicast_Push_each:
  "Multicast ext net aids route data w =
     Push_each ext net route data
       (List.map_filter (lookup_agent (agentMap (heap w net))) aids) w"
proof (induction aids arbitrary: w)
  case Nil
  show ?case by (simp add: Push_each_def)
next
  case (Cons aid aids)
  show ?case
  proof (cases "lookup_agent (agentMap (heap w net)) aid")
    case None
    then have "Multicast ext net (aid # aids) route data w = Multicast ext net aids route data w"
      by (auto simp: lookup_agent_def split: option.splits)
    with None Cons.IH [of w] show ?thesis
      by simp
  next
    case (Some a)
    then have "Multicast ext net (aid # aids) route data w =
        Multicast ext net aids route data (snd (Push ext net (agent_session a) route data w))"
      by (auto simp: lookup_agent_def split: option.splits)
    with Some Cons.IH [of "snd (Push ext net (agent_session a) route data w)"] show ?thesis
      by (simp add: Push_each_Cons)
  qed
qed

text \<open>
  C7: \<open>Multicast\<close> is one call of \<open>Push\<close> for each id of the list, in list order, whose key
  is in the agent map with a pointer that is not nil; the other ids are skipped, and
  \<open>Multicast\<close> has no error to return. Each result of \<open>Push\<close> is dropped and the next id is
  handled: there is one \<open>message.Encode\<close> call per id found whatever failed before, the
  sends go to the sessions of the agents found, at most one per \<open>Push\<close>, and exactly one
  each when the collaborators never fail. The registry is unchanged. For a list
  \<open>[v, u, v2]\<close> with \<open>v\<close> and \<open>v2\<close> registered and \<open>u\<close> not, and collaborators that never
  fail, there are exactly two sends, to the agents of \<open>v\<close> and \<open>v2\<close>.
\<close>

theorem Multicast_spec:
  "(\<exists>evs.
      Multicast ext net aids route data w =
        Push_each ext net route data
          (List.map_filter (lookup_agent (agentMap (heap w net))) aids) w \<and>
      heap (Multicast ext net aids route data w) = heap w \<and>
      trace (Multicast ext net aids route data w) = trace w @ evs \<and>
      encode_calls evs =
        replicate (length (List.map_filter (lookup_agent (agentMap (heap w net))) aids))
          \<lparr>msg_Type = message_Push, msg_ID = 0, msg_Route = route, msg_Data = data\<rparr> \<and>
      subseq (map fst (sends evs))
        (map (\<lambda>a. Entity (agent_session a))
           (List.map_filter (lookup_agent (agentMap (heap w net))) aids)) \<and>
      (never_fails ext \<longrightarrow>
         map fst (sends evs) =
           map (\<lambda>a. Entity (agent_session a))
             (List.map_filter (lookup_agent (agentMap (heap w net))) aids))) \<and>
   (never_fails ext \<and> lookup_agent (agentMap (heap w net)) v = Some a \<and>
    lookup_agent (agentMap (heap w net)) u = None \<and>
    lookup_agent (agentMap (heap w net)) v2 = Some a2 \<longrightarrow>
      (\<exists>ep ep2. sends (new_events w (Multicast ext net [v, u, v2] route data w)) =
         [(Entity (agent_session a), ep), (Entity (agent_session a2), ep2)]))"
proof (intro conjI impI)
  let ?ags = "List.map_filter (lookup_agent (agentMap (heap w net))) aids"
  obtain evs where evs: "trace (Push_each ext net route data ?ags w) = trace w @ evs"
    "encode_calls evs = replicate (length ?ags)
       \<lparr>msg_Type = message_Push, msg_ID = 0, msg_Route = route, msg_Data = data\<rparr>"
    "subseq (map fst (sends evs)) (map (\<lambda>a. Entity (agent_session a)) ?ags)"
    "never_fails ext \<longrightarrow> map fst (sends evs) = map (\<lambda>a. Entity (agent_session a)) ?ags"
    using Push_each_trace [of ext net route data ?ags w] by blast
  show "\<exists>evs.
      Multicast ext net aids route data w = Push_each ext net route data ?ags w \<and>
      heap (Multicast ext net aids route data w) = heap w \<and>
      trace (Multicast ext net aids route data w) = trace w @ evs \<and>
      encode_calls evs =
        replicate (length ?ags)
          \<lparr>msg_Type = message_Push, msg_ID = 0, msg_Route = route, msg_Data = data\<rparr> \<and>
      subseq (map fst (sends evs)) (map (\<lambda>a. Entity (agent_session a)) ?ags) \<and>
      (never_fails ext \<longrightarrow>
         map fst (sends evs) = map (\<lambda>a. Entity (agent_session a)) ?ags)"
    using evs by (intro exI [of _ evs]) (simp add: Multicast_Push_each)
next
  assume a: "never_fails ext \<and> lookup_agent (agentMap (heap w net)) v = Some a \<and>
    lookup_agent (agentMap (heap w net)) u = None \<and>
    lookup_agent (agentMap (heap w net)) v2 = Some a2"
  then have ags: "List.map_filter (lookup_agent (agentMap (heap w net))) [v, u, v2] = [a, a2]"
    by simp
  obtain evs where evs: "trace (Push_each ext net route data [a, a2] w) = trace w @ evs"
    "never_fails ext \<longrightarrow> map fst (sends evs) = map (\<lambda>a. Entity (agent_session a)) [a, a2]"
    using Push_each_trace [of ext net route data "[a, a2]" w] by blast
  have "Multicast ext net [v, u, v2] route data w = Push_each ext net route data [a, a2] w"
    unfolding Multicast_Push_each ags ..
  then have n: "new_events w (Multicast ext net [v, u, v2] route data w) = evs"
    using evs(1) by (simp add: new_events_def del: Multicast.simps)
  from evs(2) a have "map fst (sends evs) = [Entity (agent_session a), Entity (agent_session a2)]"
    by simp
  then obtain ep ep2 where
    "sends evs = [(Entity (agent_session a), ep), (Entity (agent_session a2), ep2)]"
    by (auto simp: map_eq_Cons_conv)
  with n show "\<exists>ep ep2. sends (new_events w (Multicast ext net [v, u, v2] route data w)) =
         [(Entity (agent_session a), ep), (Entity (agent_session a2), ep2)]"
    by auto
qed

lemma two_agents_lookup:
  "lookup_agent (agentMap (heap two_agents n)) 1 = Some (newAgent (example_extern True) 1 0)"
  "lookup_agent (agentMap (heap two_agents n)) 9 = None"
  "lookup_agent (agentMap (heap two_agents n)) 2 = Some (newAgent (example_extern True) 2 0)"
  by (simp_all add: two_agents_map lookup_agent_def map_get_def)

theorem Multicast_spec_witness:
  "never_fails (example_extern True) \<and>
   lookup_agent (agentMap (heap two_agents 0)) 1 = Some (newAgent (example_extern True) 1 0) \<and>
   lookup_agent (agentMap (heap two_agents 0)) 9 = None \<and>
   lookup_agent (agentMap (heap two_agents 0)) 2 = Some (newAgent (example_extern True) 2 0) \<and>
   sends (new_events two_agents (Multicast (example_extern True) 0 [1, 9, 2] ''chat'' [5] two_agents))
     = [(AgentEntity 1, [0, 5]), (AgentEntity 2, [0, 5])] \<and>
   \<not> never_fails failing_first \<and>
   sends (new_events two_agents (Multicast failing_first 0 [1, 9, 2] ''chat'' [5] two_agents))
     = [(AgentEntity 2, [0, 5])]"
proof -
  have t: "trace two_agents = []"
    by (simp add: two_agents_def)
  have m: "Multicast ext 0 [1, 9, 2] ''chat'' [5] two_agents =
      Push_each ext 0 ''chat'' [5]
        [newAgent (example_extern True) 1 0, newAgent (example_extern True) 2 0] two_agents" for ext
    by (simp add: Multicast_Push_each two_agents_lookup del: Multicast.simps)
  have s1: "sends (new_events two_agents (Push_each (example_extern True) 0 ''chat'' [5]
      [newAgent (example_extern True) 1 0, newAgent (example_extern True) 2 0] two_agents))
    = [(AgentEntity 1, [0, 5]), (AgentEntity 2, [0, 5])]"
    by (simp add: Push_each_def Push_def Let_def t example_extern_def newAgent_def sends_def
        new_events_def)
  have s2: "sends (new_events two_agents (Push_each failing_first 0 ''chat'' [5]
      [newAgent (example_extern True) 1 0, newAgent (example_extern True) 2 0] two_agents))
    = [(AgentEntity 2, [0, 5])]"
    by (simp add: Push_each_def Push_def Let_def t example_extern_def failing_first_def
        newAgent_def sends_def new_events_def)
  have nf: "\<not> never_fails failing_first"
    by (simp add: never_fails_def failing_first_def example_extern_def)
  show ?thesis
    using Multicast_spec [of "example_extern True" 0 "[1, 9, 2]" "''chat''" "[5]" two_agents
        1 "newAgent (example_extern True) 1 0" 9 2 "newAgent (example_extern True) 2 0"]
      Multicast_spec [of failing_first 0 "[1, 9, 2]" "''chat''" "[5]" two_agents
        1 "newAgent (example_extern True) 1 0" 9 2 "newAgent (example_extern True) 2 0"]
      example_never_fails [of True] two_agents_lookup [of 0]
    by (simp add: m s1 s2 nf del: Multicast.simps)
qed

subsection \<open>createAgent and the ids it assigns\<close>

lemma createAgent_Some:
  assumes "agentMap (heap w net) = Some f"
  shows "\<exists>w'. createAgent ext net c w = Some (newAgent ext (agentUid (heap w net)) c, w') \<and>
     heap w' = (heap w)(net := (heap w net)
       \<lparr>agentUid := agentUid (heap w net) + 1,
        agentMap := Some (f(agentUid (heap w net) \<mapsto>
          Some (newAgent ext (agentUid (heap w net)) c)))\<rparr>)"
  using assms by (simp add: createAgent_def Let_def map_store_def)

lemma of_nat_fresh:
  assumes "n \<le> 2 ^ 64"
  shows "(of_nat k :: 64 word) \<notin> of_nat ` {Suc k..<k + n}"
proof
  assume "(of_nat k :: 64 word) \<in> of_nat ` {Suc k..<k + n}"
  then obtain j where j: "Suc k \<le> j" "j < k + n" "(of_nat k :: 64 word) = of_nat j"
    by auto
  from j(3) have "k mod 2 ^ 64 = j mod 2 ^ 64"
    by (simp add: word_of_nat_eq_iff take_bit_eq_mod)
  with j(1) have "(2 ^ 64 :: nat) dvd j - k"
    by (metis Suc_leD mod_eq_dvd_iff_nat)
  moreover have "0 < j - k" "j - k < 2 ^ 64"
    using j(1,2) assms by simp_all
  ultimately show False
    by (meson dvd_imp_le leD)
qed

lemma createAgents_run:
  assumes "agentMap (heap w net) = Some f" and "agentUid (heap w net) = of_nat k"
    and "length cs \<le> 2 ^ 64"
  shows "\<exists>as w' f'. createAgents ext net cs w = Some (as, w') \<and>
      map agent_id as = map of_nat [k..<k + length cs] \<and>
      heap w' = (heap w)(net := (heap w net)
        \<lparr>agentUid := of_nat (k + length cs), agentMap := Some f'\<rparr>) \<and>
      (\<forall>a\<in>set as. f' (agent_id a) = Some (Some a)) \<and>
      (\<forall>x. x \<notin> of_nat ` {k..<k + length cs} \<longrightarrow> f' x = f x) \<and>
      dom f' = dom f \<union> of_nat ` {k..<k + length cs}"
  using assms
proof (induction cs arbitrary: w f k)
  case Nil
  then have "(heap w net)\<lparr>agentUid := of_nat k, agentMap := Some f\<rparr> = heap w net"
    by (cases "heap w net") simp
  then show ?case
    by (intro exI [of _ "[]"] exI [of _ w] exI [of _ f]) simp
next
  case (Cons c cs)
  let ?a = "newAgent ext (of_nat k) c"
  let ?f1 = "f(of_nat k \<mapsto> Some ?a)"
  obtain w1 where w1: "createAgent ext net c w = Some (?a, w1)"
    "heap w1 = (heap w)(net := (heap w net)
       \<lparr>agentUid := of_nat k + 1, agentMap := Some ?f1\<rparr>)"
    using createAgent_Some [OF Cons.prems(1), of ext c] Cons.prems(2) by auto
  have m1: "agentMap (heap w1 net) = Some ?f1" and u1: "agentUid (heap w1 net) = of_nat (Suc k)"
    by (simp_all add: w1(2))
  have l: "length cs \<le> 2 ^ 64"
    using Cons.prems(3) by simp
  obtain as w' f' where r: "createAgents ext net cs w1 = Some (as, w')"
    "map agent_id as = map of_nat [Suc k..<Suc k + length cs]"
    "heap w' = (heap w1)(net := (heap w1 net)
        \<lparr>agentUid := of_nat (Suc k + length cs), agentMap := Some f'\<rparr>)"
    "\<forall>a\<in>set as. f' (agent_id a) = Some (Some a)"
    "\<forall>x. x \<notin> of_nat ` {Suc k..<Suc k + length cs} \<longrightarrow> f' x = ?f1 x"
    "dom f' = dom ?f1 \<union> of_nat ` {Suc k..<Suc k + length cs}"
    using Cons.IH [OF m1 u1 l] by blast
  have fresh: "(of_nat k :: 64 word) \<notin> of_nat ` {Suc k..<Suc k + length cs}"
    using of_nat_fresh [of "length (c # cs)" k] Cons.prems(3) by simp
  have split: "{k..<k + length (c # cs)} = insert k {Suc k..<Suc k + length cs}"
    by auto
  have 1: "createAgents ext net (c # cs) w = Some (?a # as, w')"
    using w1(1) r(1) by simp
  have upt: "[k..<k + length (c # cs)] = k # [Suc k..<Suc k + length cs]"
    by (subst upt_rec) simp
  have 2: "map agent_id (?a # as) = map of_nat [k..<k + length (c # cs)]"
    unfolding upt using r(2) by (simp add: newAgent_def del: upt_Suc)
  have 3: "heap w' = (heap w)(net := (heap w net)
        \<lparr>agentUid := of_nat (k + length (c # cs)), agentMap := Some f'\<rparr>)"
    by (simp add: r(3) w1(2))
  have 4: "\<forall>a\<in>set (?a # as). f' (agent_id a) = Some (Some a)"
    using r(4) r(5) fresh by (simp add: newAgent_def)
  have 5: "\<forall>x. x \<notin> of_nat ` {k..<k + length (c # cs)} \<longrightarrow> f' x = f x"
    using r(5) unfolding split by auto
  have 6: "dom f' = dom f \<union> of_nat ` {k..<k + length (c # cs)}"
    using r(6) unfolding split by auto
  from 1 2 3 4 5 6 show ?case by blast
qed


lemma createAcceptor_Some:
  assumes "acceptorMap (heap w net) = Some f"
  shows "\<exists>w'. createAcceptor net c w = Some (newAcceptor (acceptorUid (heap w net)) c, w') \<and>
     heap w' = (heap w)(net := (heap w net)
       \<lparr>acceptorUid := acceptorUid (heap w net) + 1,
        acceptorMap := Some (f(acceptorUid (heap w net) \<mapsto>
          Some (newAcceptor (acceptorUid (heap w net)) c)))\<rparr>)"
  using assms by (simp add: createAcceptor_def Let_def map_store_def)

text \<open>
  C3: on a \<open>netService\<close> as \<open>NewNetService\<close> returns it, a run of N calls of \<open>createAgent\<close>
  (N below \<open>2^64\<close>, the ids being \<open>uint64\<close>) returns, and the ids of the agents it
  returns are 1, 2, ..., N in call order: all different, and as a set exactly
  \<open>{1, ..., N}\<close>. Each agent is stored under its own id, \<open>getAgent\<close> of that id returns it,
  and the map has no other key. The acceptor counter is still 1 and the acceptor map still
  empty after the run: the next \<open>createAcceptor\<close> returns an acceptor of id 1 and leaves
  the agent counter and the agent map as they are.
\<close>

theorem createAgent_ids:
  "heap w net = NewNetService \<and> length cs < 2 ^ 64 \<longrightarrow>
     (\<exists>as w'. createAgents ext net cs w = Some (as, w') \<and>
        length as = length cs \<and>
        map (\<lambda>a. unat (agent_id a)) as = [1..<Suc (length cs)] \<and>
        distinct (map agent_id as) \<and>
        (\<lambda>a. unat (agent_id a)) ` set as = {1..length cs} \<and>
        (\<forall>a\<in>set as. map_get (agentMap (heap w' net)) (agent_id a) = Some (Some a) \<and>
                      getAgent net (agent_id a) w' = (Inr a, w')) \<and>
        map_keys (agentMap (heap w' net)) = agent_id ` set as \<and>
        acceptorUid (heap w' net) = 1 \<and> acceptorMap (heap w' net) = make_map \<and>
        (\<forall>c. \<exists>acc w''. createAcceptor net c w' = Some (acc, w'') \<and> acceptor_id acc = 1 \<and>
           agentUid (heap w'' net) = agentUid (heap w' net) \<and>
           agentMap (heap w'' net) = agentMap (heap w' net)))"
proof
  assume a: "heap w net = NewNetService \<and> length cs < 2 ^ 64"
  let ?n = "length cs"
  have m0: "agentMap (heap w net) = Some Map.empty" and u0: "agentUid (heap w net) = of_nat 1"
    using a by (simp_all add: NewNetService_def make_map_def)
  have l: "?n \<le> 2 ^ 64"
    using a by simp
  obtain as w' f' where r: "createAgents ext net cs w = Some (as, w')"
    "map agent_id as = map of_nat [1..<1 + ?n]"
    "heap w' = (heap w)(net := (heap w net)\<lparr>agentUid := of_nat (1 + ?n), agentMap := Some f'\<rparr>)"
    "\<forall>a\<in>set as. f' (agent_id a) = Some (Some a)"
    "dom f' = dom (Map.empty :: uid \<rightharpoonup> agent option) \<union> of_nat ` {1..<1 + ?n}"
    using createAgents_run [OF m0 u0 l, of ext] by blast
  have len: "length as = ?n"
    using r(2) by (metis length_map length_upt add_diff_cancel_left')
  have "map unat (map agent_id as) = map (\<lambda>i. unat (of_nat i :: 64 word)) [1..<1 + ?n]"
    by (simp add: r(2))
  also have "\<dots> = map (\<lambda>i. i) [1..<1 + ?n]"
  proof (rule map_cong [OF refl])
    fix i assume "i \<in> set [1..<1 + ?n]"
    then have "i \<le> ?n"
      by (simp del: upt_Suc)
    with a have "i < 2 ^ 64"
      by linarith
    then show "unat (of_nat i :: 64 word) = i"
      by (simp add: unat_of_nat)
  qed
  finally have ids: "map (\<lambda>a. unat (agent_id a)) as = [1..<Suc ?n]"
    by (simp add: comp_def)
  have "distinct (map (\<lambda>a. unat (agent_id a)) as)"
    unfolding ids by simp
  then have "distinct (map unat (map agent_id as))"
    by (simp add: comp_def)
  then have dist: "distinct (map agent_id as)"
    by (auto simp: distinct_map inj_on_def)
  have "set (map (\<lambda>a. unat (agent_id a)) as) = {1..?n}"
    unfolding ids by auto
  then have idset: "(\<lambda>a. unat (agent_id a)) ` set as = {1..?n}"
    by simp
  have mp: "agentMap (heap w' net) = Some f'"
    by (simp add: r(3))
  have stored: "\<forall>a\<in>set as. map_get (agentMap (heap w' net)) (agent_id a) = Some (Some a) \<and>
                      getAgent net (agent_id a) w' = (Inr a, w')"
    using r(4) by (simp add: mp getAgent_def map_get_def)
  have "of_nat ` {1..<1 + ?n} = set (map of_nat [1..<1 + ?n] :: 64 word list)"
    by (simp del: upt_Suc)
  also have "\<dots> = agent_id ` set as"
    unfolding r(2) [symmetric] by simp
  finally have keys: "map_keys (agentMap (heap w' net)) = agent_id ` set as"
    using r(5) by (simp add: mp map_keys_def)
  have acc: "acceptorUid (heap w' net) = 1" "acceptorMap (heap w' net) = make_map"
    using a by (simp_all add: r(3) NewNetService_def)
  have nxt: "\<exists>acc w''. createAcceptor net c w' = Some (acc, w'') \<and> acceptor_id acc = 1 \<and>
           agentUid (heap w'' net) = agentUid (heap w' net) \<and>
           agentMap (heap w'' net) = agentMap (heap w' net)" for c
  proof -
    have "acceptorMap (heap w' net) = Some Map.empty"
      using acc(2) by (simp add: make_map_def)
    from createAcceptor_Some [OF this, of c] acc(1) show ?thesis
      by (auto simp: newAcceptor_def)
  qed
  from r(1) len ids dist idset stored keys acc nxt
  show "\<exists>as w'. createAgents ext net cs w = Some (as, w') \<and>
        length as = length cs \<and>
        map (\<lambda>a. unat (agent_id a)) as = [1..<Suc (length cs)] \<and>
        distinct (map agent_id as) \<and>
        (\<lambda>a. unat (agent_id a)) ` set as = {1..length cs} \<and>
        (\<forall>a\<in>set as. map_get (agentMap (heap w' net)) (agent_id a) = Some (Some a) \<and>
                      getAgent net (agent_id a) w' = (Inr a, w')) \<and>
        map_keys (agentMap (heap w' net)) = agent_id ` set as \<and>
        acceptorUid (heap w' net) = 1 \<and> acceptorMap (heap w' net) = make_map \<and>
        (\<forall>c. \<exists>acc w''. createAcceptor net c w' = Some (acc, w'') \<and> acceptor_id acc = 1 \<and>
           agentUid (heap w'' net) = agentUid (heap w' net) \<and>
           agentMap (heap w'' net) = agentMap (heap w' net))"
    by blast
qed


theorem createAgent_ids_witness:
  "heap start_world 0 = NewNetService \<and> length [10, 11, 12 :: conn] < 2 ^ 64 \<and>
   (\<exists>as w'. createAgents (example_extern True) 0 [10, 11, 12] start_world = Some (as, w') \<and>
      map (\<lambda>a. unat (agent_id a)) as = [1, 2, 3] \<and>
      map (\<lambda>a. fst (getAgent 0 (agent_id a) w')) as = map Inr as \<and>
      acceptorUid (heap w' 0) = 1)"
proof -
  have h: "heap start_world 0 = NewNetService \<and> length [10, 11, 12 :: conn] < 2 ^ 64"
    by (simp add: start_world_def)
  have u: "[1..<Suc (length [10, 11, 12 :: conn])] = [1, 2, 3]"
    by (simp add: upt_rec)
  from createAgent_ids [of start_world 0 "[10, 11, 12]" "example_extern True"] h
  obtain as w' where r: "createAgents (example_extern True) 0 [10, 11, 12] start_world = Some (as, w')"
    "map (\<lambda>a. unat (agent_id a)) as = [1..<Suc (length [10, 11, 12 :: conn])]"
    "\<forall>a\<in>set as. map_get (agentMap (heap w' 0)) (agent_id a) = Some (Some a) \<and>
        getAgent 0 (agent_id a) w' = (Inr a, w')"
    "acceptorUid (heap w' 0) = 1"
    by blast
  from r(3) have g: "map (\<lambda>a. fst (getAgent 0 (agent_id a) w')) as = map Inr as"
    by simp
  from r(2) have i: "map (\<lambda>a. unat (agent_id a)) as = [1, 2, 3]"
    unfolding u .
  have "\<exists>as w'. createAgents (example_extern True) 0 [10, 11, 12] start_world = Some (as, w') \<and>
      map (\<lambda>a. unat (agent_id a)) as = [1, 2, 3] \<and>
      map (\<lambda>a. fst (getAgent 0 (agent_id a) w')) as = map Inr as \<and>
      acceptorUid (heap w' 0) = 1"
    using r(1) i g r(4) by (intro exI [of _ as] exI [of _ w'] conjI)
  with h show ?thesis
    by (intro conjI) simp_all
qed

subsection \<open>closeSession\<close>

lemma callback_calls_Nil [simp]: "callback_calls [] = []"
  by (simp add: callback_calls_def)

lemma callback_calls_Cons [simp]: "callback_calls (e # evs) = callback_of e @ callback_calls evs"
  by (simp add: callback_calls_def)

lemma lock_calls_Nil [simp]: "lock_calls [] = []"
  by (simp add: lock_calls_def)

lemma lock_calls_Cons [simp]: "lock_calls (e # evs) = lock_of e @ lock_calls evs"
  by (simp add: lock_calls_def)

lemma log_calls_Nil [simp]: "log_calls [] = []"
  by (simp add: log_calls_def)

lemma log_calls_Cons [simp]: "log_calls (e # evs) = log_of e @ log_calls evs"
  by (simp add: log_calls_def)

lemma callback_calls_append [simp]:
  "callback_calls (xs @ ys) = callback_calls xs @ callback_calls ys"
  by (simp add: callback_calls_def)

lemma lock_calls_append [simp]: "lock_calls (xs @ ys) = lock_calls xs @ lock_calls ys"
  by (simp add: lock_calls_def)

lemma log_calls_append [simp]: "log_calls (xs @ ys) = log_calls xs @ log_calls ys"
  by (simp add: log_calls_def)

lemma new_events_append [simp]: "trace w' = trace w @ evs \<Longrightarrow> new_events w w' = evs"
  by (simp add: new_events_def)

lemma heap_call_callbacks [simp]: "heap (call_callbacks cbs s w) = heap w"
  by (induction cbs s w rule: call_callbacks.induct) simp_all

lemma trace_call_callbacks:
  "trace (call_callbacks cbs s w) = trace w @ map (\<lambda>cb. Callback cb s) (List.map_filter id cbs)"
  by (induction cbs s w rule: call_callbacks.induct) simp_all

lemma heap_fold_emit [simp]: "heap (fold (\<lambda>x. emit (g x)) xs w) = heap w"
  by (induction xs arbitrary: w) simp_all

lemma trace_fold_emit [simp]: "trace (fold (\<lambda>x. emit (g x)) xs w) = trace w @ map g xs"
  by (induction xs arbitrary: w) simp_all

lemma heap_dumpAgents [simp]: "heap (dumpAgents ext net order w) = heap w"
  by (simp add: dumpAgents_def Let_def)

lemma trace_dumpAgents:
  "trace (dumpAgents ext net order w) =
     trace w @ dump_events ext net order (agentMap (heap w net))"
  by (simp add: dumpAgents_def dump_events_def Let_def)

lemma callback_calls_dump [simp]: "callback_calls (dump_events ext net order m) = []"
  by (simp add: dump_events_def callback_calls_def)

lemma callback_calls_map_Callback [simp]:
  "callback_calls (map (\<lambda>cb. Callback cb s) cbs) = map (\<lambda>cb. (cb, s)) cbs"
  by (induction cbs) simp_all

text \<open>The registry after \<open>closeSession\<close>: in a frontend the agent stored under the entity
  id of the session is deleted from the map of \<open>net\<close>; nothing else changes.\<close>

lemma heap_closeSession:
  "heap (closeSession ext net s order w) =
     (if IsFrontend ext \<and> lookup_agent (agentMap (heap w net)) (ID (Entity s)) \<noteq> None
      then (heap w)(net := (heap w net)
             \<lparr>agentMap := map_delete (agentMap (heap w net)) (ID (Entity s))\<rparr>)
      else heap w)"
  by (simp add: closeSession_def Let_def lookup_agent_def split: option.splits)

lemma trace_closeSession:
  "trace (closeSession ext net s order w) =
     trace w @ [Mutex net sessionCloseCbLock RLock] @
     map (\<lambda>cb. Callback cb s) (List.map_filter id (sessionCloseCb (heap w net))) @
     [Mutex net sessionCloseCbLock RUnlock] @
     (if IsFrontend ext
      then [Mutex net agentMapLock Lock, Mutex net agentMapLock Unlock] @
           dump_events ext defaultNetService order
             (agentMap (heap (closeSession ext net s order w) defaultNetService))
      else [])"
proof -
  have cb: "(if length (sessionCloseCb (heap w net)) > 0
       then call_callbacks (sessionCloseCb (heap w net)) s w' else w') =
      call_callbacks (sessionCloseCb (heap w net)) s w'" for w'
    by (cases "sessionCloseCb (heap w net)") simp_all
  show ?thesis
    by (simp add: closeSession_def Let_def cb trace_call_callbacks trace_dumpAgents
        split: option.splits)
qed

lemma heap_sessionClosedCallback:
  "heap (sessionClosedCallback net cb w) =
     (heap w)(net := (heap w net)\<lparr>sessionCloseCb := sessionCloseCb (heap w net) @ [cb]\<rparr>)"
  by (simp add: sessionClosedCallback_def Let_def)

lemma register_all:
  "sessionCloseCb (heap (fold (sessionClosedCallback net) cbs w) net) =
     sessionCloseCb (heap w net) @ cbs"
  by (induction cbs arbitrary: w) (simp_all add: heap_sessionClosedCallback)

text \<open>
  C4: one call of \<open>closeSession\<close> calls the entries of \<open>net.sessionCloseCb\<close> that are not
  nil, each once, in the order of the list, with the closing session as argument; nil
  entries are skipped, and nothing else is called as a callback. \<open>sessionClosedCallback\<close>
  appends to that list, so after the registrations \<open>cbs\<close>, made in that order,
  \<open>closeSession\<close> calls the earlier entries and then those of \<open>cbs\<close> in registration order.
\<close>

theorem closeSession_callbacks:
  "callback_calls (new_events w (closeSession ext net s order w)) =
     map (\<lambda>cb. (cb, s)) (List.map_filter id (sessionCloseCb (heap w net))) \<and>
   sessionCloseCb (heap (fold (sessionClosedCallback net) cbs w) net) =
     sessionCloseCb (heap w net) @ cbs \<and>
   callback_calls (new_events (fold (sessionClosedCallback net) cbs w)
       (closeSession ext net s order (fold (sessionClosedCallback net) cbs w))) =
     map (\<lambda>cb. (cb, s)) (List.map_filter id (sessionCloseCb (heap w net) @ cbs))"
proof -
  have a: "callback_calls (new_events w' (closeSession ext net s order w')) =
     map (\<lambda>cb. (cb, s)) (List.map_filter id (sessionCloseCb (heap w' net)))" for w'
    by (simp add: new_events_append [OF trace_closeSession])
  show ?thesis
    using a [of w] a [of "fold (sessionClosedCallback net) cbs w"]
    by (simp only: register_all simp_thms)
qed

theorem closeSession_callbacks_witness:
  "callback_calls (new_events (fold (sessionClosedCallback 0) [Some 7, None, Some 8, Some 7] start_world)
     (closeSession (example_extern True) 0 \<lparr>LastID = 0, Entity = AgentEntity 1\<rparr> []
        (fold (sessionClosedCallback 0) [Some 7, None, Some 8, Some 7] start_world))) =
   [(7, \<lparr>LastID = 0, Entity = AgentEntity 1\<rparr>), (8, \<lparr>LastID = 0, Entity = AgentEntity 1\<rparr>),
    (7, \<lparr>LastID = 0, Entity = AgentEntity 1\<rparr>)]"
proof -
  have "sessionCloseCb (heap start_world 0) = []"
    by (simp add: start_world_def NewNetService_def)
  with closeSession_callbacks [of "fold (sessionClosedCallback 0) [Some 7, None, Some 8, Some 7] start_world"
      "example_extern True" 0 "\<lparr>LastID = 0, Entity = AgentEntity 1\<rparr>" "[]" "[]"]
    closeSession_callbacks [of start_world "example_extern True" 0
      "\<lparr>LastID = 0, Entity = AgentEntity 1\<rparr>" "[]" "[Some 7, None, Some 8, Some 7]"]
  show ?thesis
    by simp
qed

lemma second_registry_heap:
  "heap second_registry 2 = NewNetService
     \<lparr>agentUid := 3,
      agentMap := Some [1 \<mapsto> Some (newAgent (example_extern True) 1 0),
                        2 \<mapsto> Some (newAgent (example_extern True) 2 0)]\<rparr>"
  "heap second_registry defaultNetService = NewNetService"
  "trace second_registry = []"
  by (simp_all add: second_registry_def start_world_def two_agents_def defaultNetService_def)

text \<open>
  C5, on the code: in a frontend, \<open>closeSession\<close> called on the \<open>netService\<close> at address 2,
  which holds the agents 1 and 2, with the session of agent 1, removes agent 1 from the
  map of that \<open>netService\<close> and leaves agent 2 there; the dump that follows is the one of
  \<open>defaultNetService\<close>: it takes the read lock of \<open>defaultNetService\<close> and logs the count 0
  of its empty map and no session, where the map of the registry the call was made on has
  one agent left.
\<close>

theorem closeSession_dumps_defaultNetService:
  "IsFrontend (example_extern True) \<and> defaultNetService \<noteq> 2 \<and>
   map_keys (agentMap (heap second_registry 2)) = {1, 2} \<and>
   map_keys (agentMap (heap
      (closeSession (example_extern True) 2 (agent_session (newAgent (example_extern True) 1 0)) []
         second_registry) 2)) = {2} \<and>
   map_len (agentMap (heap
      (closeSession (example_extern True) 2 (agent_session (newAgent (example_extern True) 1 0)) []
         second_registry) 2)) = 1 \<and>
   trace (closeSession (example_extern True) 2 (agent_session (newAgent (example_extern True) 1 0)) []
      second_registry) =
     [Mutex 2 sessionCloseCbLock RLock, Mutex 2 sessionCloseCbLock RUnlock,
      Mutex 2 agentMapLock Lock, Mutex 2 agentMapLock Unlock,
      Mutex defaultNetService agentMapLock RLock,
      log_Info_count ''current agent count: %d'' 0,
      Mutex defaultNetService agentMapLock RUnlock]"
proof -
  let ?s = "agent_session (newAgent (example_extern True) 1 0)"
  have f: "IsFrontend (example_extern True)"
    by (simp add: example_extern_def)
  have d: "defaultNetService \<noteq> 2"
    by (simp add: defaultNetService_def)
  have i: "ID (Entity ?s) = 1"
    by (simp add: newAgent_def)
  have l: "lookup_agent (agentMap (heap second_registry 2)) 1 \<noteq> None"
    by (simp add: second_registry_heap lookup_agent_def map_get_def)
  have h: "heap (closeSession (example_extern True) 2 ?s [] second_registry) =
     (heap second_registry)(2 := (heap second_registry 2)
        \<lparr>agentMap := Some [2 \<mapsto> Some (newAgent (example_extern True) 2 0)]\<rparr>)"
    unfolding heap_closeSession i using f l
    by (simp add: second_registry_heap map_delete_def fun_upd_twist)
  have k0: "map_keys (agentMap (heap second_registry 2)) = {1, 2}"
    by (auto simp: second_registry_heap map_keys_def)
  have k1: "map_keys (agentMap (heap
      (closeSession (example_extern True) 2 ?s [] second_registry) 2)) = {2}"
    by (simp add: h map_keys_def)
  have dm: "agentMap (heap (closeSession (example_extern True) 2 ?s [] second_registry)
      defaultNetService) = make_map"
    using d by (simp add: h second_registry_heap NewNetService_def)
  have t: "trace (closeSession (example_extern True) 2 ?s [] second_registry) =
     [Mutex 2 sessionCloseCbLock RLock, Mutex 2 sessionCloseCbLock RUnlock,
      Mutex 2 agentMapLock Lock, Mutex 2 agentMapLock Unlock,
      Mutex defaultNetService agentMapLock RLock,
      log_Info_count ''current agent count: %d'' 0,
      Mutex defaultNetService agentMapLock RUnlock]"
    unfolding trace_closeSession dm using f
    by (simp add: second_registry_heap NewNetService_def dump_events_def make_map_def
        map_len_def map_keys_def range_values_def)
  from f d k0 k1 t show ?thesis
    by (simp add: map_len_def)
qed

subsection \<open>heartbeat\<close>

lemma heartbeat_loop_Some:
  "\<exists>w'. heartbeat_loop ext (map Some ags) w = Some w' \<and> heap w' = heap w \<and>
     trace w' = trace w @ concat (map (heartbeat_events ext) ags)"
proof (induction ags arbitrary: w)
  case Nil
  show ?case by simp
next
  case (Cons a ags)
  show ?case
  proof (cases "agent_status a = statusWorking")
    case True
    let ?w1 = "emit (agent_heartbeat a) (emit (agent_send a (heartbeatPacket ext)) w)"
    obtain w' where "heartbeat_loop ext (map Some ags) ?w1 = Some w'" "heap w' = heap ?w1"
      "trace w' = trace ?w1 @ concat (map (heartbeat_events ext) ags)"
      using Cons.IH [of ?w1] by blast
    moreover have "heartbeat_events ext a =
        [agent_send a (heartbeatPacket ext), agent_heartbeat a]"
      using True by (simp add: heartbeat_events_def)
    ultimately show ?thesis
      using True by simp
  next
    case False
    obtain w' where "heartbeat_loop ext (map Some ags) w = Some w'" "heap w' = heap w"
      "trace w' = trace w @ concat (map (heartbeat_events ext) ags)"
      using Cons.IH [of w] by blast
    moreover have "heartbeat_events ext a = []"
      using False by (simp add: heartbeat_events_def)
    ultimately show ?thesis
      using False by simp
  qed
qed

text \<open>
  C6: \<open>heartbeat\<close> returns the state as it was when the role is not frontend or the agent
  map is nil. Otherwise (no key of the agent map holding a nil pointer) it visits every
  key of the agent map once, in the order of the \<open>range\<close>, and for the agent stored there
  it calls the agent's \<open>send\<close> with \<open>heartbeatPacket\<close> and then the agent's \<open>heartbeat\<close> when
  the status is working, and calls nothing when it is not. \<open>heartbeatPacket\<close> is the frame
  packed at initialisation: it does not depend on the state of the call, so every send
  carries the same bytes. The registry is unchanged.
\<close>

theorem heartbeat_spec:
  "(\<not> IsFrontend ext \<or> agentMap (heap w net) = None \<longrightarrow>
      heartbeat ext net order w = Some w) \<and>
   (IsFrontend ext \<and> agentMap (heap w net) \<noteq> None \<and>
    range_order (agentMap (heap w net)) order \<and> nil_free (agentMap (heap w net)) \<longrightarrow>
      (\<exists>ags w'.
         map (map_get (agentMap (heap w net))) order = map (Some \<circ> Some) ags \<and>
         length ags = map_len (agentMap (heap w net)) \<and>
         heartbeat ext net order w = Some w' \<and> heap w' = heap w \<and>
         trace w' = trace w @ concat (map (heartbeat_events ext) ags)))"
proof (intro conjI impI)
  assume "\<not> IsFrontend ext \<or> agentMap (heap w net) = None"
  then show "heartbeat ext net order w = Some w"
    by (auto simp: heartbeat_def)
next
  assume a: "IsFrontend ext \<and> agentMap (heap w net) \<noteq> None \<and>
    range_order (agentMap (heap w net)) order \<and> nil_free (agentMap (heap w net))"
  let ?m = "agentMap (heap w net)"
  obtain ags where ags: "range_values ?m order = map Some ags"
    "map (map_get ?m) order = map (Some \<circ> Some) ags" "length ags = map_len ?m"
    using range_values_agents [of ?m order] a by blast
  obtain w' where w': "heartbeat_loop ext (map Some ags) w = Some w'" "heap w' = heap w"
    "trace w' = trace w @ concat (map (heartbeat_events ext) ags)"
    using heartbeat_loop_Some [of ext ags w] by blast
  have "heartbeat ext net order w = Some w'"
    using a ags(1) w'(1) by (auto simp: heartbeat_def)
  with ags(2,3) w'(2,3) show "\<exists>ags w'.
         map (map_get (agentMap (heap w net))) order = map (Some \<circ> Some) ags \<and>
         length ags = map_len (agentMap (heap w net)) \<and>
         heartbeat ext net order w = Some w' \<and> heap w' = heap w \<and>
         trace w' = trace w @ concat (map (heartbeat_events ext) ags)"
    by blast
qed

lemma one_closed_map:
  "agentMap (heap one_closed n) =
     Some [1 \<mapsto> Some (newAgent (example_extern True) 1 0),
           2 \<mapsto> Some ((newAgent (example_extern True) 2 0)\<lparr>agent_status := statusClosed\<rparr>)]"
  by (simp add: one_closed_def)

theorem heartbeat_spec_witness:
  "\<not> IsFrontend (example_extern False) \<and>
   heartbeat (example_extern False) 0 [2, 1] one_closed = Some one_closed \<and>
   agentMap (heap (upd 0 (\<lambda>n. n\<lparr>agentMap := None\<rparr>) one_closed) 0) = None \<and>
   heartbeat (example_extern True) 0 [] (upd 0 (\<lambda>n. n\<lparr>agentMap := None\<rparr>) one_closed) =
     Some (upd 0 (\<lambda>n. n\<lparr>agentMap := None\<rparr>) one_closed) \<and>
   IsFrontend (example_extern True) \<and> agentMap (heap one_closed 0) \<noteq> None \<and>
   range_order (agentMap (heap one_closed 0)) [2, 1] \<and>
   nil_free (agentMap (heap one_closed 0)) \<and>
   (\<exists>w'. heartbeat (example_extern True) 0 [2, 1] one_closed = Some w' \<and>
      trace w' = [agent_send (newAgent (example_extern True) 1 0) [0],
                  agent_heartbeat (newAgent (example_extern True) 1 0)])"
proof -
  have f: "\<not> IsFrontend (example_extern False)" "IsFrontend (example_extern True)"
    by (simp_all add: example_extern_def)
  have n: "agentMap (heap (upd 0 (\<lambda>n. n\<lparr>agentMap := None\<rparr>) one_closed) 0) = None"
    by simp
  have m: "agentMap (heap one_closed 0) \<noteq> None"
    by (simp add: one_closed_map)
  have ro: "range_order (agentMap (heap one_closed 0)) [2, 1]"
    by (auto simp: one_closed_map range_order_def map_keys_def)
  have nf: "nil_free (agentMap (heap one_closed 0))"
    by (simp add: one_closed_map nil_free_def map_get_def)
  have hb: "heartbeatPacket (example_extern True) = [0]"
    by (simp add: heartbeatPacket_def example_extern_def)
  have rv: "range_values (agentMap (heap one_closed 0)) [2, 1] =
     [Some ((newAgent (example_extern True) 2 0)\<lparr>agent_status := statusClosed\<rparr>),
      Some (newAgent (example_extern True) 1 0)]"
    by (simp add: one_closed_map range_values_def map_filter_def map_get_def)
  have t: "trace one_closed = []"
    by (simp add: one_closed_def)
  have st: "agent_status (newAgent (example_extern True) 1 0) = statusWorking"
    by (simp add: newAgent_def example_extern_def)
  have r: "\<exists>w'. heartbeat (example_extern True) 0 [2, 1] one_closed = Some w' \<and>
      trace w' = [agent_send (newAgent (example_extern True) 1 0) [0],
                  agent_heartbeat (newAgent (example_extern True) 1 0)]"
    using f(2) m by (simp add: heartbeat_def rv hb st t)
  show ?thesis
    using heartbeat_spec [of "example_extern False" one_closed 0 "[2, 1]"]
      heartbeat_spec [of "example_extern True" "upd 0 (\<lambda>n. n\<lparr>agentMap := None\<rparr>) one_closed" 0 "[]"]
      heartbeat_spec [of "example_extern True" one_closed 0 "[2, 1]"]
      f n m ro nf r
    by simp
qed

subsection \<open>The acceptor map\<close>

lemma heap_removeAcceptor:
  "heap (removeAcceptor net a w) =
     (heap w)(net := (heap w net)
        \<lparr>acceptorMap := map_delete (acceptorMap (heap w net)) (acceptor_id a)\<rparr>)"
  by (simp add: removeAcceptor_def Let_def)

lemma map_delete_twice: "map_delete (map_delete m k) k = map_delete m k"
  by (simp add: map_delete_def split: option.splits)

lemma map_get_delete: "map_get (map_delete m k) k = None"
  by (simp add: map_delete_def map_get_def split: option.splits)

lemma map_delete_absent: "map_get m k = None \<Longrightarrow> map_delete m k = m"
  by (auto simp: map_delete_def map_get_def split: option.splits)

lemma heap_Broadcast_loop:
  "Broadcast_loop ext net route data ss w = Some w' \<Longrightarrow> heap w' = heap w"
  by (induction ext net route data ss w rule: Broadcast_loop.induct) simp_all

lemma heap_heartbeat_loop: "heartbeat_loop ext ss w = Some w' \<Longrightarrow> heap w' = heap w"
  by (induction ext ss w rule: heartbeat_loop.induct) (simp_all split: if_splits)

lemma heap_Multicast [simp]: "heap (Multicast ext net aids route data w) = heap w"
  by (simp add: Multicast_Push_each del: Multicast.simps)

lemma heap_dumpAcceptor [simp]: "heap (dumpAcceptor ext net order w) = heap w"
  by (simp add: dumpAcceptor_def Let_def)

lemma acceptorMap_createAgent:
  "createAgent ext net c w = Some (a, w') \<Longrightarrow> acceptorMap (heap w' n) = acceptorMap (heap w n)"
  by (auto simp: createAgent_def Let_def map_store_def split: option.splits)

lemma acceptorMap_createAcceptor:
  assumes "createAcceptor net c w = Some (a, w')"
  shows "map_keys (acceptorMap (heap w n)) \<subseteq> map_keys (acceptorMap (heap w' n))"
proof (cases "acceptorMap (heap w net)")
  case None
  then have "createAcceptor net c w = None"
    by (simp add: createAcceptor_def Let_def map_store_def)
  with assms show ?thesis by simp
next
  case (Some f)
  from createAcceptor_Some [OF Some, of c] assms
  have h: "heap w' = (heap w)(net := (heap w net)
       \<lparr>acceptorUid := acceptorUid (heap w net) + 1,
        acceptorMap := Some (f(acceptorUid (heap w net) \<mapsto>
          Some (newAcceptor (acceptorUid (heap w net)) c)))\<rparr>)"
    by auto
  show ?thesis
  proof (cases "n = net")
    case True
    with Some show ?thesis
      by (auto simp: h map_keys_def)
  next
    case False
    then show ?thesis
      by (simp add: h)
  qed
qed

lemma acceptorMap_closeSession:
  "acceptorMap (heap (closeSession ext net s order w) n) = acceptorMap (heap w n)"
  by (simp add: heap_closeSession)

lemma acceptorMap_exec:
  assumes "exec ext c w = Some w'" and "\<forall>net a. c \<noteq> call_removeAcceptor net a"
  shows "map_keys (acceptorMap (heap w n)) \<subseteq> map_keys (acceptorMap (heap w' n))"
proof (cases c)
  case (call_createAgent net x)
  with assms(1) show ?thesis
    by (auto simp: acceptorMap_createAgent)
next
  case (call_createAcceptor net x)
  with assms(1) obtain a where "createAcceptor net x w = Some (a, w')"
    by auto
  then show ?thesis
    by (rule acceptorMap_createAcceptor)
next
  case (call_Broadcast net route data order)
  with assms(1) have "heap w' = heap w"
    by (auto simp: Broadcast_def heap_Broadcast_loop split: if_splits)
  then show ?thesis by simp
next
  case (call_heartbeat net order)
  with assms(1) have "heap w' = heap w"
    by (auto simp: heartbeat_def heap_heartbeat_loop split: if_splits)
  then show ?thesis by simp
next
  case (call_removeAcceptor net a)
  with assms(2) show ?thesis by simp
next
  case (call_closeSession net s order)
  with assms(1) show ?thesis
    by (auto simp: acceptorMap_closeSession)
next
  case (call_sessionClosedCallback net cb)
  with assms(1) show ?thesis
    by (auto simp: heap_sessionClosedCallback)
next
  case (call_OnSessionClosed cb)
  with assms(1) show ?thesis
    by (auto simp: OnSessionClosed_def heap_sessionClosedCallback)
qed (use assms(1) in \<open>auto simp: getAgent_def getAcceptor_def split: option.splits\<close>)


text \<open>
  C8: \<open>removeAcceptor\<close> deletes the id of the acceptor from the acceptor map of \<open>net\<close>,
  whatever the map holds: the id is not a key afterwards. A second call changes no
  \<open>netService\<close> any more, and a call for an id that is not a key leaves the map as it was.
  No other function of net.go takes a key out of an acceptor map: after any call that is
  not \<open>removeAcceptor\<close> and that returns, every key of every acceptor map is still there;
  \<open>closeSession\<close> in particular leaves every acceptor map as it was, in both roles.
\<close>

theorem removeAcceptor_only_removal:
  "acceptorMap (heap (removeAcceptor net a w) net) =
     map_delete (acceptorMap (heap w net)) (acceptor_id a) \<and>
   map_get (acceptorMap (heap (removeAcceptor net a w) net)) (acceptor_id a) = None \<and>
   acceptor_id a \<notin> map_keys (acceptorMap (heap (removeAcceptor net a w) net)) \<and>
   heap (removeAcceptor net a (removeAcceptor net a w)) = heap (removeAcceptor net a w) \<and>
   (map_get (acceptorMap (heap w net)) (acceptor_id a) = None \<longrightarrow>
      acceptorMap (heap (removeAcceptor net a w) net) = acceptorMap (heap w net)) \<and>
   (\<forall>c w' n. exec ext c w = Some w' \<and> (\<forall>net' a'. c \<noteq> call_removeAcceptor net' a') \<longrightarrow>
      map_keys (acceptorMap (heap w n)) \<subseteq> map_keys (acceptorMap (heap w' n))) \<and>
   (\<forall>n. acceptorMap (heap (closeSession ext net s order w) n) = acceptorMap (heap w n))"
proof (intro conjI allI impI)
  show "acceptorMap (heap (removeAcceptor net a w) net) =
     map_delete (acceptorMap (heap w net)) (acceptor_id a)"
    by (simp add: heap_removeAcceptor)
next
  show "map_get (acceptorMap (heap (removeAcceptor net a w) net)) (acceptor_id a) = None"
    by (simp add: heap_removeAcceptor map_get_delete)
next
  have "map_get (acceptorMap (heap (removeAcceptor net a w) net)) (acceptor_id a) = None"
    by (simp add: heap_removeAcceptor map_get_delete)
  then show "acceptor_id a \<notin> map_keys (acceptorMap (heap (removeAcceptor net a w) net))"
    by (auto simp: map_get_def map_keys_def split: option.splits)
next
  show "heap (removeAcceptor net a (removeAcceptor net a w)) = heap (removeAcceptor net a w)"
    by (simp add: heap_removeAcceptor map_delete_twice)
next
  assume "map_get (acceptorMap (heap w net)) (acceptor_id a) = None"
  then show "acceptorMap (heap (removeAcceptor net a w) net) = acceptorMap (heap w net)"
    by (simp add: heap_removeAcceptor map_delete_absent)
next
  fix c w' n
  assume "exec ext c w = Some w' \<and> (\<forall>net' a'. c \<noteq> call_removeAcceptor net' a')"
  then show "map_keys (acceptorMap (heap w n)) \<subseteq> map_keys (acceptorMap (heap w' n))"
    using acceptorMap_exec [of ext c w w' n] by blast
next
  fix n
  show "acceptorMap (heap (closeSession ext net s order w) n) = acceptorMap (heap w n)"
    by (rule acceptorMap_closeSession)
qed

theorem removeAcceptor_only_removal_witness:
  "map_keys (acceptorMap (heap one_acceptor 0)) = {1} \<and>
   map_keys (acceptorMap (heap (removeAcceptor 0 (newAcceptor 1 0) one_acceptor) 0)) = {} \<and>
   map_get (acceptorMap (heap one_acceptor 0)) (acceptor_id (newAcceptor 9 0)) = None \<and>
   acceptorMap (heap (removeAcceptor 0 (newAcceptor 9 0) one_acceptor) 0) =
     acceptorMap (heap one_acceptor 0) \<and>
   (\<exists>w'. exec (example_extern False)
            (call_closeSession 0 (acceptor_session (newAcceptor 1 0)) []) one_acceptor = Some w' \<and>
      (\<forall>net' a'. call_closeSession 0 (acceptor_session (newAcceptor 1 0)) []
         \<noteq> call_removeAcceptor net' a') \<and>
      {1} \<subseteq> map_keys (acceptorMap (heap w' 0)))"
proof -
  let ?c = "call_closeSession 0 (acceptor_session (newAcceptor 1 0)) []"
  let ?w' = "closeSession (example_extern False) 0 (acceptor_session (newAcceptor 1 0)) []
    one_acceptor"
  have m: "acceptorMap (heap one_acceptor 0) = Some [1 \<mapsto> Some (newAcceptor 1 0)]"
    by (simp add: one_acceptor_def)
  have k: "map_keys (acceptorMap (heap one_acceptor 0)) = {1}"
    by (simp add: m map_keys_def)
  have k': "map_keys (acceptorMap (heap (removeAcceptor 0 (newAcceptor 1 0) one_acceptor) 0)) = {}"
    by (simp add: heap_removeAcceptor m map_delete_def map_keys_def newAcceptor_def)
  have g: "map_get (acceptorMap (heap one_acceptor 0)) (acceptor_id (newAcceptor 9 0)) = None"
    by (simp add: m map_get_def newAcceptor_def)
  have e: "exec (example_extern False) ?c one_acceptor = Some ?w'"
    by simp
  have ne: "\<forall>net' a'. ?c \<noteq> call_removeAcceptor net' a'"
    by simp
  from removeAcceptor_only_removal [of 0 "newAcceptor 9 0" one_acceptor "example_extern False"
      "acceptor_session (newAcceptor 1 0)" "[]"] g e ne
  have "acceptorMap (heap (removeAcceptor 0 (newAcceptor 9 0) one_acceptor) 0) =
      acceptorMap (heap one_acceptor 0)"
    and "map_keys (acceptorMap (heap one_acceptor 0)) \<subseteq> map_keys (acceptorMap (heap ?w' 0))"
    by blast+
  with k k' g e ne show ?thesis
    by (intro conjI exI [of _ ?w']) simp_all
qed

subsection \<open>Mutex calls of the functions that read a map\<close>

lemma lock_calls_emit:
  "lock_calls (trace (emit ev w)) = lock_calls (trace w) @ lock_of ev"
  by simp

lemma lock_calls_Push [simp]:
  "lock_calls (trace (snd (Push ext net s route data w))) = lock_calls (trace w)"
  by (simp add: Push_def Let_def split: sum.splits)

lemma lock_calls_Push_each [simp]:
  "lock_calls (trace (Push_each ext net route data ags w)) = lock_calls (trace w)"
  by (induction ags arbitrary: w) (simp_all add: Push_each_def)

lemma lock_calls_Broadcast_loop:
  "Broadcast_loop ext net route data ss w = Some w' \<Longrightarrow>
     lock_calls (trace w') = lock_calls (trace w)"
  by (induction ext net route data ss w rule: Broadcast_loop.induct) simp_all

lemma lock_calls_heartbeat_loop:
  "heartbeat_loop ext ss w = Some w' \<Longrightarrow> lock_calls (trace w') = lock_calls (trace w)"
  by (induction ext ss w rule: heartbeat_loop.induct) (simp_all split: if_splits)

text \<open>
  \<open>getAgent\<close>, \<open>getAcceptor\<close>, \<open>Multicast\<close>, \<open>Broadcast\<close> and \<open>heartbeat\<close> read a map and call
  no mutex, on any input; \<open>dumpAgents\<close> takes the read lock of the agent map before it
  reads and releases it at the end.
\<close>

lemma readers_lock_calls:
  "snd (getAgent net sid w) = w"
  "snd (getAcceptor net sid w) = w"
  "lock_calls (trace (Multicast ext net aids route data w)) = lock_calls (trace w)"
  "Broadcast ext net route data order w = Some w' \<Longrightarrow>
     lock_calls (trace w') = lock_calls (trace w)"
  "heartbeat ext net order w = Some w' \<Longrightarrow> lock_calls (trace w') = lock_calls (trace w)"
  "lock_calls (trace (dumpAgents ext net order w)) =
     lock_calls (trace w) @ [(net, agentMapLock, RLock), (net, agentMapLock, RUnlock)]"
proof -
  show "snd (getAgent net sid w) = w"
    by (simp add: getAgent_def split: option.splits)
  show "snd (getAcceptor net sid w) = w"
    by (simp add: getAcceptor_def split: option.splits)
  show "lock_calls (trace (Multicast ext net aids route data w)) = lock_calls (trace w)"
    by (simp add: Multicast_Push_each del: Multicast.simps)
  show "Broadcast ext net route data order w = Some w' \<Longrightarrow>
     lock_calls (trace w') = lock_calls (trace w)"
    by (auto simp: Broadcast_def lock_calls_Broadcast_loop split: if_splits)
  show "heartbeat ext net order w = Some w' \<Longrightarrow> lock_calls (trace w') = lock_calls (trace w)"
    by (auto simp: heartbeat_def lock_calls_heartbeat_loop split: if_splits)
  have "lock_calls (map (\<lambda>ses. log_Info (''session: '' @ agent_String ext ses)) xs) = []" for xs
    by (induction xs) simp_all
  then show "lock_calls (trace (dumpAgents ext net order w)) =
     lock_calls (trace w) @ [(net, agentMapLock, RLock), (net, agentMapLock, RUnlock)]"
    by (simp add: trace_dumpAgents dump_events_def)
qed

text \<open>
  C9, on the code: with the agents 1 and 2 registered, \<open>getAgent\<close> finds agent 1,
  \<open>Broadcast\<close> and \<open>Multicast\<close> send to both agents and \<open>heartbeat\<close> calls both, and none of
  them, nor \<open>getAcceptor\<close>, makes a single mutex call: the map is read without its lock.
  Of the functions that read a map only \<open>dumpAgents\<close> (and \<open>dumpAcceptor\<close>) holds the read
  lock while it ranges over the map.
\<close>

theorem readers_without_lock:
  "getAgent 0 1 two_agents = (Inr (newAgent (example_extern True) 1 0), two_agents) \<and>
   getAcceptor 0 1 two_agents = (Inl (AcceptorNotExists 1), two_agents) \<and>
   lock_calls (trace two_agents) = [] \<and>
   (\<exists>w'. Broadcast (example_extern True) 0 ''chat'' [5] [2, 1] two_agents = Some w' \<and>
      map fst (sends (trace w')) = [AgentEntity 2, AgentEntity 1] \<and>
      lock_calls (trace w') = []) \<and>
   map fst (sends (trace (Multicast (example_extern True) 0 [1, 9, 2] ''chat'' [5] two_agents))) =
     [AgentEntity 1, AgentEntity 2] \<and>
   lock_calls (trace (Multicast (example_extern True) 0 [1, 9, 2] ''chat'' [5] two_agents)) = [] \<and>
   (\<exists>w'. heartbeat (example_extern True) 0 [2, 1] two_agents = Some w' \<and>
      trace w' = [agent_send (newAgent (example_extern True) 2 0) [0],
                  agent_heartbeat (newAgent (example_extern True) 2 0),
                  agent_send (newAgent (example_extern True) 1 0) [0],
                  agent_heartbeat (newAgent (example_extern True) 1 0)] \<and>
      lock_calls (trace w') = []) \<and>
   lock_calls (trace (dumpAgents (example_extern True) 0 [2, 1] two_agents)) =
     [(0, agentMapLock, RLock), (0, agentMapLock, RUnlock)]"
proof -
  have t: "trace two_agents = []"
    by (simp add: two_agents_def)
  have f: "IsFrontend (example_extern True)"
    by (simp add: example_extern_def)
  have 1: "getAgent 0 1 two_agents = (Inr (newAgent (example_extern True) 1 0), two_agents)"
    by (simp add: getAgent_def two_agents_map map_get_def)
  have 2: "getAcceptor 0 1 two_agents = (Inl (AcceptorNotExists 1), two_agents)"
    by (simp add: getAcceptor_def two_agents_def NewNetService_def make_map_def map_get_def)
  have b: "Broadcast (example_extern True) 0 ''chat'' [5] [2, 1] two_agents =
      Some (Push_each (example_extern True) 0 ''chat'' [5]
        [newAgent (example_extern True) 2 0, newAgent (example_extern True) 1 0] two_agents)"
    using f by (simp add: Broadcast_def two_agents_values Push_each_def)
  have bs: "map fst (sends (trace (Push_each (example_extern True) 0 ''chat'' [5]
      [newAgent (example_extern True) 2 0, newAgent (example_extern True) 1 0] two_agents)))
    = [AgentEntity 2, AgentEntity 1]"
    by (simp add: Push_each_def Push_def Let_def t example_extern_def newAgent_def sends_def)
  have 3: "\<exists>w'. Broadcast (example_extern True) 0 ''chat'' [5] [2, 1] two_agents = Some w' \<and>
      map fst (sends (trace w')) = [AgentEntity 2, AgentEntity 1] \<and> lock_calls (trace w') = []"
    unfolding b using bs by (simp add: t)
  have m: "Multicast (example_extern True) 0 [1, 9, 2] ''chat'' [5] two_agents =
      Push_each (example_extern True) 0 ''chat'' [5]
        [newAgent (example_extern True) 1 0, newAgent (example_extern True) 2 0] two_agents"
    by (simp add: Multicast_Push_each two_agents_lookup del: Multicast.simps)
  have 4: "map fst (sends (trace (Multicast (example_extern True) 0 [1, 9, 2] ''chat'' [5]
      two_agents))) = [AgentEntity 1, AgentEntity 2]"
    unfolding m
    by (simp add: Push_each_def Push_def Let_def t example_extern_def newAgent_def sends_def)
  have 5: "lock_calls (trace (Multicast (example_extern True) 0 [1, 9, 2] ''chat'' [5]
      two_agents)) = []"
    unfolding m by (simp add: t)
  have hb: "heartbeatPacket (example_extern True) = [0]"
    by (simp add: heartbeatPacket_def example_extern_def)
  have st: "agent_status (newAgent (example_extern True) i 0) = statusWorking" for i
    by (simp add: newAgent_def example_extern_def)
  have ne: "agentMap (heap two_agents 0) \<noteq> None"
    by (simp add: two_agents_map)
  have 6: "\<exists>w'. heartbeat (example_extern True) 0 [2, 1] two_agents = Some w' \<and>
      trace w' = [agent_send (newAgent (example_extern True) 2 0) [0],
                  agent_heartbeat (newAgent (example_extern True) 2 0),
                  agent_send (newAgent (example_extern True) 1 0) [0],
                  agent_heartbeat (newAgent (example_extern True) 1 0)] \<and>
      lock_calls (trace w') = []"
    using f ne by (simp add: heartbeat_def two_agents_values hb st t)
  have 7: "lock_calls (trace (dumpAgents (example_extern True) 0 [2, 1] two_agents)) =
     [(0, agentMapLock, RLock), (0, agentMapLock, RUnlock)]"
    by (simp add: readers_lock_calls(6) t)
  from 1 2 3 4 5 6 7 show ?thesis
    by (simp add: t)
qed

theorem readers_without_lock_witness:
  "IsFrontend (example_extern True) \<and> agentMap (heap two_agents 0) \<noteq> None \<and>
   (\<exists>w'. heartbeat (example_extern True) 0 [2, 1] two_agents = Some w' \<and>
      trace w' \<noteq> [] \<and> lock_calls (trace w') = [])"
proof -
  have "IsFrontend (example_extern True)"
    by (simp add: example_extern_def)
  moreover have "agentMap (heap two_agents 0) \<noteq> None"
    by (simp add: two_agents_map)
  moreover have "\<exists>w'. heartbeat (example_extern True) 0 [2, 1] two_agents = Some w' \<and>
      trace w' \<noteq> [] \<and> lock_calls (trace w') = []"
    using readers_without_lock by auto
  ultimately show ?thesis by blast
qed

end
